theory Spec2Isabelle
  imports Complex_Main "HOL-Library.Char_ord" "HOL-Library.List_Lexorder" "HOL-Library.Multiset"
begin

section \<open>Exceptions and effects\<close>

text \<open>
  The exception classes the connection manager, the event fetcher and the analyzer raise
  or catch. \<open>Web3Exception\<close> and \<open>RequestException\<close> are the two classes
  \<open>execute_with_retry\<close> catches; every other constructor is an \<open>Exception\<close> that it
  lets through. The string is the message (or the missing key).
\<close>

datatype exn =
    Web3Exception string
  | RequestException string
  | ConnectionError string
  | Exception string
  | KeyError string
  | IndexError
  | ZeroDivisionError
  | OverflowError
  | UnboundLocalError string

fun is_transient :: "exn \<Rightarrow> bool" where
  "is_transient (Web3Exception m) = True"
| "is_transient (RequestException m) = True"
| "is_transient e = False"

text \<open>
  What the program does to the outside world, in order: an invocation of the wrapped
  operation, a \<open>time.sleep\<close>, a rotation of the endpoint cursor, a liveness probe of an
  endpoint, a log query over a block window.
\<close>

datatype action =
    Call
  | Sleep int
  | Rotate
  | Probe string
  | Query int int

text \<open>
  The outside world answers as a function of everything done so far: a liveness probe
  (\<open>Web3(...).is_connected()\<close>) says yes, says no, or raises; an operation returns a
  value or raises.
\<close>

datatype probe = Live | Dead | Broken

datatype 'a outcome = Returns 'a | Raises exn

type_synonym liveness = "action list \<Rightarrow> string \<Rightarrow> probe"

type_synonym 'a operation = "action list \<Rightarrow> 'a outcome"

section \<open>Configuration (aave\_usdc\_analysis/config.py, rotation/event\_fetcher.py)\<close>

definition POLYGON_RPC_ENDPOINTS :: "string list" where
  "POLYGON_RPC_ENDPOINTS =
     [''https://polygon-mainnet.g.alchemy.com/v2/wDSruny3chAxEsPUN60ss'',
      ''https://polygon-rpc.com'',
      ''https://rpc-mainnet.maticvigil.com'',
      ''https://matic-mainnet.chainstacklabs.com'']"

definition MAX_RETRIES :: nat where
  "MAX_RETRIES = 3"

definition RETRY_DELAY :: int where
  "RETRY_DELAY = 2"

definition BLOCKS_PER_BATCH :: int where
  "BLOCKS_PER_BATCH = 10000"

definition USDC_DECIMALS :: nat where
  "USDC_DECIMALS = 6"

section \<open>Connection manager (aave\_usdc\_analysis/connection.py)\<close>

text \<open>
  The fields of \<open>Web3ConnectionManager\<close>; \<open>w3\<close> is the endpoint the current Web3
  object was built for. \<open>effects\<close> is not a field of the class: it records the actions
  performed so far.
\<close>

record manager =
  rpc_endpoints :: "string list"
  current_rpc_index :: nat
  w3 :: "string option"
  effects :: "action list"

definition perform :: "action \<Rightarrow> manager \<Rightarrow> manager" where
  "perform a s = s\<lparr>effects := effects s @ [a]\<rparr>"

text \<open>
  \<open>_rotate_rpc\<close>: \<open>(i + 1) % len(endpoints)\<close>; Python raises ZeroDivisionError for an
  empty list.
\<close>

definition rotate_rpc :: "manager \<Rightarrow> exn + manager" where
  "rotate_rpc s =
     (if length (rpc_endpoints s) = 0 then Inl ZeroDivisionError
      else Inr (perform Rotate
             (s\<lparr>current_rpc_index :=
                  (current_rpc_index s + 1) mod length (rpc_endpoints s)\<rparr>)))"

text \<open>
  The body of \<open>_connect\<close>'s \<open>for attempt in range(len(self.rpc_endpoints))\<close>, with the
  number of iterations left and the local variable \<open>endpoint\<close> (unbound before the
  first assignment). An index out of range raises IndexError inside the \<open>try\<close>; the
  handler then formats \<open>endpoint\<close>, which raises UnboundLocalError out of the handler
  when nothing was assigned yet. A probe that says no and a probe that raises both end
  in \<open>_rotate_rpc\<close>. After the loop: ConnectionError.
\<close>

fun connect_loop :: "liveness \<Rightarrow> nat \<Rightarrow> string option \<Rightarrow> manager \<Rightarrow> (exn + bool) \<times> manager" where
  "connect_loop is_connected 0 endpoint s =
     (Inl (ConnectionError ''Failed to connect to any RPC endpoint''), s)"
| "connect_loop is_connected (Suc n) endpoint s =
     (if current_rpc_index s < length (rpc_endpoints s) then
        (let ep = rpc_endpoints s ! current_rpc_index s;
             s1 = perform (Probe ep) (s\<lparr>w3 := Some ep\<rparr>)
         in case is_connected (effects s) ep of
              Live \<Rightarrow> (Inr True, s1)
            | _ \<Rightarrow> (case rotate_rpc s1 of
                      Inl e \<Rightarrow> (Inl e, s1)
                    | Inr s2 \<Rightarrow> connect_loop is_connected n (Some ep) s2))
      else (case endpoint of
              None \<Rightarrow> (Inl (UnboundLocalError ''endpoint''), s)
            | Some ep \<Rightarrow> (case rotate_rpc s of
                          Inl e \<Rightarrow> (Inl e, s)
                        | Inr s2 \<Rightarrow> connect_loop is_connected n (Some ep) s2)))"

definition connect :: "liveness \<Rightarrow> manager \<Rightarrow> (exn + bool) \<times> manager" where
  "connect is_connected s = connect_loop is_connected (length (rpc_endpoints s)) None s"

text \<open>
  \<open>__init__\<close>: \<open>rpc_endpoints or POLYGON_RPC_ENDPOINTS\<close> (an empty list is falsy),
  cursor 0, no Web3 object, then \<open>_connect\<close>.
\<close>

definition init :: "liveness \<Rightarrow> string list \<Rightarrow> (exn + bool) \<times> manager" where
  "init is_connected eps =
     connect is_connected
       \<lparr>rpc_endpoints = (if eps = [] then POLYGON_RPC_ENDPOINTS else eps),
        current_rpc_index = 0, w3 = None, effects = []\<rparr>"

lemma rotate_rpc_endpoints:
  "rotate_rpc s = Inr s' \<Longrightarrow> rpc_endpoints s' = rpc_endpoints s"
  by (auto simp: rotate_rpc_def perform_def split: if_splits)

lemma connect_loop_endpoints:
  "rpc_endpoints (snd (connect_loop is_connected n endpoint s)) = rpc_endpoints s"
proof (induction n arbitrary: endpoint s)
  case 0
  show ?case by simp
next
  case (Suc n)
  show ?case
    by (auto simp: Let_def perform_def Suc rotate_rpc_endpoints
        split: probe.splits sum.splits option.splits)
qed

lemma connect_endpoints:
  "connect is_connected s = (r, s') \<Longrightarrow> rpc_endpoints s' = rpc_endpoints s"
  using connect_loop_endpoints [of is_connected "length (rpc_endpoints s)" None s]
  by (simp add: connect_def)

text \<open>
  \<open>execute_with_retry\<close>: the \<open>while retries < MAX_RETRIES * len(self.rpc_endpoints)\<close>
  loop with its two local variables. \<open>k\<close> is MAX\_RETRIES and \<open>d\<close> RETRY\_DELAY. An
  exception of \<open>_rotate_rpc\<close> or \<open>_connect\<close> is raised inside the handler and leaves
  the function. After the loop: \<open>raise last_exception or Exception(...)\<close>.
\<close>

function retry_loop ::
  "nat \<Rightarrow> int \<Rightarrow> liveness \<Rightarrow> 'a operation \<Rightarrow> nat \<Rightarrow> exn option \<Rightarrow> manager \<Rightarrow> (exn + 'a) \<times> manager" where
  "retry_loop k d is_connected func retries last_exception s =
     (if retries < k * length (rpc_endpoints s) then
        (case func (effects s) of
           Returns v \<Rightarrow> (Inr v, perform Call s)
         | Raises e \<Rightarrow>
             (if is_transient e then
                (if (retries + 1) mod k = 0 then
                   (case rotate_rpc (perform Call s) of
                      Inl e' \<Rightarrow> (Inl e', perform Call s)
                    | Inr s1 \<Rightarrow>
                        (case connect is_connected s1 of
                           (Inl e', s2) \<Rightarrow> (Inl e', s2)
                         | (Inr b, s2) \<Rightarrow>
                             retry_loop k d is_connected func (retries + 1) (Some e) s2))
                 else retry_loop k d is_connected func (retries + 1) (Some e)
                        (perform (Sleep d) (perform Call s)))
              else (Inl e, perform Call s)))
      else (Inl (case last_exception of
                   Some e \<Rightarrow> e
                 | None \<Rightarrow> Exception ''Max retries exceeded''), s))"
  by pat_completeness auto
termination
proof (relation "measure (\<lambda>(k, d, is_connected, func, retries, last_exception, s).
                    k * length (rpc_endpoints s) - retries)", goal_cases)
  case 1
  show ?case by simp
next
  case 2
  then show ?case
    by (auto dest!: connect_endpoints [OF sym] rotate_rpc_endpoints simp: perform_def)
next
  case 3
  then show ?case by (simp add: perform_def)
qed

definition execute_with_retry :: "liveness \<Rightarrow> 'a operation \<Rightarrow> manager \<Rightarrow> (exn + 'a) \<times> manager" where
  "execute_with_retry is_connected func s =
     retry_loop MAX_RETRIES RETRY_DELAY is_connected func 0 None s"

declare retry_loop.simps [simp del]

text \<open>The number of invocations of the wrapped operation in a history.\<close>

definition calls :: "action list \<Rightarrow> nat" where
  "calls h = count_list h Call"

text \<open>The sleeps (the backoffs of the event fetcher) and the block windows queried in a history.\<close>

fun backoffs :: "action list \<Rightarrow> int list" where
  "backoffs [] = []"
| "backoffs (Sleep d # h) = d # backoffs h"
| "backoffs (a # h) = backoffs h"

fun windows :: "action list \<Rightarrow> (int \<times> int) list" where
  "windows [] = []"
| "windows (Query f t # h) = (f, t) # windows h"
| "windows (a # h) = windows h"

lemma backoffs_append [simp]: "backoffs (h @ h') = backoffs h @ backoffs h'"
  by (induction h rule: backoffs.induct) simp_all

lemma windows_append [simp]: "windows (h @ h') = windows h @ windows h'"
  by (induction h rule: windows.induct) simp_all

subsection \<open>Connecting when no endpoint answers\<close>

lemma take_Suc_rotate:
  assumes "i < length xs" "n < length xs"
  shows "take (Suc n) (rotate i xs) = xs ! i # take n (rotate (Suc i mod length xs) xs)"
proof -
  have ne: "xs \<noteq> []" using assms by auto
  have len: "length (rotate i xs) = length xs" by simp
  then obtain y ys where r: "rotate i xs = y # ys"
    using ne by (cases "rotate i xs") auto
  have "y = hd (rotate i xs)" using r by simp
  also have "\<dots> = xs ! i"
    using assms(1) by (simp add: hd_rotate_conv_nth ne)
  finally have y: "y = xs ! i" .
  have lys: "length ys = length xs - 1" using len r by simp
  have "rotate (Suc i mod length xs) xs = rotate (Suc i) xs"
    by (simp add: rotate_conv_mod [symmetric])
  also have "\<dots> = ys @ [y]" using r by simp
  finally have "take n (rotate (Suc i mod length xs) xs) = take n ys"
    using assms(2) lys by simp
  then show ?thesis using r y by simp
qed

lemma connect_loop_all_fail:
  assumes dead: "\<And>h ep. is_connected h ep \<noteq> Live"
  shows "current_rpc_index s < length (rpc_endpoints s) \<Longrightarrow> n \<le> length (rpc_endpoints s) \<Longrightarrow>
    connect_loop is_connected n endpoint s =
      (Inl (ConnectionError ''Failed to connect to any RPC endpoint''),
       s\<lparr>current_rpc_index := (current_rpc_index s + n) mod length (rpc_endpoints s),
         w3 := (if n = 0 then w3 s
                else Some (rpc_endpoints s ! ((current_rpc_index s + n - 1) mod length (rpc_endpoints s)))),
         effects := effects s @
           concat (map (\<lambda>ep. [Probe ep, Rotate]) (take n (rotate (current_rpc_index s) (rpc_endpoints s))))\<rparr>)"
proof (induction n arbitrary: endpoint s)
  case 0
  then show ?case by simp
next
  case (Suc n)
  let ?N = "length (rpc_endpoints s)"
  let ?i = "current_rpc_index s"
  let ?ep = "rpc_endpoints s ! ?i"
  let ?s1 = "perform (Probe ?ep) (s\<lparr>w3 := Some ?ep\<rparr>)"
  let ?s2 = "perform Rotate (?s1\<lparr>current_rpc_index := (?i + 1) mod ?N\<rparr>)"
  have N: "0 < ?N" "n < ?N" using Suc.prems by auto
  have rot: "rotate_rpc ?s1 = Inr ?s2"
    using N by (simp add: rotate_rpc_def perform_def)
  have step: "connect_loop is_connected (Suc n) endpoint s = connect_loop is_connected n (Some ?ep) ?s2"
    using Suc.prems(1) dead [of "effects s" ?ep] rot
    by (cases "is_connected (effects s) ?ep") (simp_all add: Let_def)
  have i2: "current_rpc_index ?s2 < length (rpc_endpoints ?s2)"
    using N by (simp add: perform_def)
  have n2: "n \<le> length (rpc_endpoints ?s2)"
    using N by (simp add: perform_def)
  note IH = Suc.IH [OF i2 n2, of "Some ?ep"]
  have tk: "take (Suc n) (rotate ?i (rpc_endpoints s)) =
            ?ep # take n (rotate (Suc ?i mod ?N) (rpc_endpoints s))"
    using take_Suc_rotate [OF Suc.prems(1) N(2)] .
  have idx: "((?i + 1) mod ?N + n) mod ?N = (?i + Suc n) mod ?N"
    by (simp add: mod_add_left_eq)
  have w: "n \<noteq> 0 \<Longrightarrow> ((?i + 1) mod ?N + n - 1) mod ?N = (?i + Suc n - 1) mod ?N"
  proof -
    assume "n \<noteq> 0"
    then obtain m where m: "n = Suc m" by (cases n) auto
    have "((?i + 1) mod ?N + n - 1) mod ?N = ((?i + 1) mod ?N + m) mod ?N" using m by simp
    also have "\<dots> = (?i + 1 + m) mod ?N" by (simp add: mod_add_left_eq)
    finally show ?thesis using m by simp
  qed
  have w0: "n = 0 \<Longrightarrow> (?i + Suc n - 1) mod ?N = ?i" using Suc.prems(1) by simp
  show ?case
    unfolding step IH tk
    using idx w w0 by (cases "n = 0") (simp_all add: perform_def)
qed

lemma connect_all_fail:
  assumes "\<And>h ep. is_connected h ep \<noteq> Live"
    and "current_rpc_index s < length (rpc_endpoints s)"
  shows "connect is_connected s =
      (Inl (ConnectionError ''Failed to connect to any RPC endpoint''),
       s\<lparr>current_rpc_index := current_rpc_index s,
         w3 := Some (rpc_endpoints s ! ((current_rpc_index s + length (rpc_endpoints s) - 1) mod length (rpc_endpoints s))),
         effects := effects s @
           concat (map (\<lambda>ep. [Probe ep, Rotate]) (rotate (current_rpc_index s) (rpc_endpoints s)))\<rparr>)"
  unfolding connect_def
  using connect_loop_all_fail [of is_connected s "length (rpc_endpoints s)" None, OF assms(1) assms(2)] assms(2)
  by (cases "rpc_endpoints s = []") simp_all

lemma calls_append [simp]: "calls (h @ h') = calls h + calls h'"
  by (induction h) (simp_all add: calls_def)

lemma calls_simps [simp]:
  "calls [] = 0" "calls (Call # h) = Suc (calls h)"
  "calls (Sleep d # h) = calls h" "calls (Rotate # h) = calls h"
  "calls (Probe ep # h) = calls h" "calls (Query a b # h) = calls h"
  by (simp_all add: calls_def)

lemma rotate_rpc_index:
  "rotate_rpc s = Inr s' \<Longrightarrow> current_rpc_index s' < length (rpc_endpoints s')"
  by (auto simp: rotate_rpc_def perform_def split: if_splits)

lemma rotate_rpc_calls:
  "rotate_rpc s = Inr s' \<Longrightarrow> calls (effects s') = calls (effects s)"
  by (auto simp: rotate_rpc_def perform_def split: if_splits)

lemma connect_loop_calls:
  "calls (effects (snd (connect_loop is_connected n endpoint s))) = calls (effects s)"
proof (induction n arbitrary: endpoint s)
  case 0
  show ?case by simp
next
  case (Suc n)
  show ?case
    by (auto simp: Let_def perform_def Suc dest!: rotate_rpc_calls
        split: probe.splits sum.splits option.splits)
qed

lemma connect_calls:
  "connect is_connected s = (r, s') \<Longrightarrow> calls (effects s') = calls (effects s)"
  using connect_loop_calls [of is_connected "length (rpc_endpoints s)" None s]
  by (simp add: connect_def)

lemma connect_loop_index:
  "current_rpc_index s < length (rpc_endpoints s) \<Longrightarrow>
   current_rpc_index (snd (connect_loop is_connected n endpoint s))
     < length (rpc_endpoints (snd (connect_loop is_connected n endpoint s)))"
proof (induction n arbitrary: endpoint s)
  case 0
  then show ?case by simp
next
  case (Suc n)
  then show ?case
    by (auto simp: Let_def perform_def dest!: rotate_rpc_index
        split: probe.splits sum.splits option.splits)
qed

lemma connect_index:
  "connect is_connected s = (r, s') \<Longrightarrow> current_rpc_index s < length (rpc_endpoints s) \<Longrightarrow>
   current_rpc_index s' < length (rpc_endpoints s')"
  using connect_loop_index [of s is_connected "length (rpc_endpoints s)" None]
  by (simp add: connect_def)

lemma connect_loop_error:
  "current_rpc_index s < length (rpc_endpoints s) \<Longrightarrow>
   fst (connect_loop is_connected n endpoint s) = Inl e \<Longrightarrow>
   e = ConnectionError ''Failed to connect to any RPC endpoint''"
proof (induction n arbitrary: endpoint s)
  case 0
  then show ?case by simp
next
  case (Suc n)
  let ?ep = "rpc_endpoints s ! current_rpc_index s"
  let ?s1 = "perform (Probe ?ep) (s\<lparr>w3 := Some ?ep\<rparr>)"
  obtain s2 where rot: "rotate_rpc ?s1 = Inr s2"
    using Suc.prems(1) by (cases "rpc_endpoints s") (auto simp: rotate_rpc_def perform_def)
  have i2: "current_rpc_index s2 < length (rpc_endpoints s2)"
    using rotate_rpc_index [OF rot] .
  show ?case
  proof (cases "is_connected (effects s) ?ep = Live")
    case True
    then show ?thesis using Suc.prems by (simp add: Let_def)
  next
    case False
    then have "connect_loop is_connected (Suc n) endpoint s = connect_loop is_connected n (Some ?ep) s2"
      using Suc.prems(1) rot by (cases "is_connected (effects s) ?ep") (simp_all add: Let_def)
    then show ?thesis using Suc.IH [OF i2] Suc.prems(2) by simp
  qed
qed

lemma connect_error:
  "connect is_connected s = (Inl e, s') \<Longrightarrow> current_rpc_index s < length (rpc_endpoints s) \<Longrightarrow>
   e = ConnectionError ''Failed to connect to any RPC endpoint''"
  using connect_loop_error [of s is_connected "length (rpc_endpoints s)" None e]
  by (simp add: connect_def)

lemma connect_live:
  assumes "current_rpc_index s < length (rpc_endpoints s)"
    and "is_connected (effects s) (rpc_endpoints s ! current_rpc_index s) = Live"
  shows "connect is_connected s =
     (Inr True, perform (Probe (rpc_endpoints s ! current_rpc_index s))
                  (s\<lparr>w3 := Some (rpc_endpoints s ! current_rpc_index s)\<rparr>))"
proof -
  obtain n where n: "length (rpc_endpoints s) = Suc n"
    using assms(1) by (cases "length (rpc_endpoints s)") auto
  show ?thesis using assms by (simp add: connect_def n Let_def)
qed

text \<open>The attempts are bounded whatever the operation and the endpoints do.\<close>

lemma retry_loop_calls_bound:
  "calls (effects (snd (retry_loop k d is_connected func retries last_exception s)))
     \<le> calls (effects s) + (k * length (rpc_endpoints s) - retries)"
proof (induction k d is_connected func retries last_exception s rule: retry_loop.induct)
  case (1 k d is_connected func retries last_exception s)
  show ?case
  proof (cases "retries < k * length (rpc_endpoints s)")
    case False
    then show ?thesis by (subst retry_loop.simps) simp
  next
    case guard: True
    show ?thesis
    proof (cases "func (effects s)")
      case (Returns v)
      then show ?thesis using guard by (subst retry_loop.simps) (simp add: perform_def)
    next
      case (Raises e)
      show ?thesis
      proof (cases "is_transient e")
        case False
        then show ?thesis using guard Raises by (subst retry_loop.simps) (simp add: perform_def)
      next
        case tr: True
        show ?thesis
        proof (cases "(retries + 1) mod k = 0")
          case False
          have "calls (effects (snd (retry_loop k d is_connected func (retries + 1) (Some e)
                   (perform (Sleep d) (perform Call s)))))
                \<le> calls (effects (perform (Sleep d) (perform Call s)))
                  + (k * length (rpc_endpoints (perform (Sleep d) (perform Call s))) - (retries + 1))"
            using "1.IH"(2) [OF guard Raises tr False] .
          then show ?thesis
            using guard Raises tr False
            by (subst retry_loop.simps) (simp add: perform_def)
        next
          case kth: True
          show ?thesis
          proof (cases "rotate_rpc (perform Call s)")
            case (Inl e')
            then show ?thesis using guard Raises tr kth
              by (subst retry_loop.simps) (simp add: perform_def)
          next
            case (Inr s1)
            have c1: "calls (effects s1) = Suc (calls (effects s))"
              using rotate_rpc_calls [OF Inr] by (simp add: perform_def)
            have e1: "rpc_endpoints s1 = rpc_endpoints s"
              using rotate_rpc_endpoints [OF Inr] by (simp add: perform_def)
            obtain r s2 where c: "connect is_connected s1 = (r, s2)"
              by (cases "connect is_connected s1") auto
            have c2: "calls (effects s2) = Suc (calls (effects s))"
              using connect_calls [OF c] c1 by simp
            have e2: "rpc_endpoints s2 = rpc_endpoints s"
              using connect_endpoints [OF c] e1 by simp
            show ?thesis
            proof (cases r)
              case (Inl e')
              then show ?thesis using guard Raises tr kth Inr c c2
                by (subst retry_loop.simps) simp
            next
              case (Inr b)
              have "calls (effects (snd (retry_loop k d is_connected func (retries + 1) (Some e) s2)))
                    \<le> calls (effects s2) + (k * length (rpc_endpoints s2) - (retries + 1))"
                using "1.IH"(1) [OF guard Raises tr kth \<open>rotate_rpc (perform Call s) = Inr s1\<close> c [symmetric] Inr] by simp
              then show ?thesis using guard Raises tr kth \<open>rotate_rpc (perform Call s) = Inr s1\<close> c Inr c2 e2
                by (subst retry_loop.simps) simp
            qed
          qed
        qed
      qed
    qed
  qed
qed

subsection \<open>The retry loop on an operation that always fails with a transient error\<close>

lemma calls_replicate_sleep: "calls (concat (replicate m [Call, Sleep d])) = m"
  by (induction m) simp_all

lemma retry_loop_sleep_phase:
  assumes fails: "\<And>h. func h = Raises (err (calls h))"
    and transient: "\<And>i. is_transient (err i)"
  shows "(\<forall>j<m. (retries + j + 1) mod k \<noteq> 0) \<Longrightarrow> retries + m \<le> k * length (rpc_endpoints s) \<Longrightarrow>
    retry_loop k d is_connected func retries last_exception s =
    retry_loop k d is_connected func (retries + m)
      (if m = 0 then last_exception else Some (err (calls (effects s) + m - 1)))
      (s\<lparr>effects := effects s @ concat (replicate m [Call, Sleep d])\<rparr>)"
proof (induction m arbitrary: retries last_exception s)
  case 0
  show ?case by simp
next
  case (Suc m)
  let ?s1 = "perform (Sleep d) (perform Call s)"
  have guard: "retries < k * length (rpc_endpoints s)" using Suc.prems(2) by simp
  have nk: "(retries + 1) mod k \<noteq> 0" using Suc.prems(1) by force
  have step: "retry_loop k d is_connected func retries last_exception s =
     retry_loop k d is_connected func (retries + 1) (Some (err (calls (effects s)))) ?s1"
    using guard nk fails transient by (subst retry_loop.simps) simp
  have p1: "\<forall>j<m. (retries + 1 + j + 1) mod k \<noteq> 0"
  proof (intro allI impI)
    fix j assume "j < m"
    then have "(retries + Suc j + 1) mod k \<noteq> 0" using Suc.prems(1) by auto
    then show "(retries + 1 + j + 1) mod k \<noteq> 0" by (simp add: add.commute add.left_commute)
  qed
  have p2: "retries + 1 + m \<le> k * length (rpc_endpoints ?s1)"
    using Suc.prems(2) by (simp add: perform_def)
  show ?case
    unfolding step Suc.IH [OF p1 p2]
    by (simp add: perform_def)
qed

lemma retry_loop_rotate_step:
  assumes fails: "\<And>h. func h = Raises (err (calls h))"
    and transient: "\<And>i. is_transient (err i)"
    and live: "\<And>h ep. is_connected h ep = Live"
    and guard: "retries < k * length (rpc_endpoints s)"
    and kth: "(retries + 1) mod k = 0"
    and idx: "current_rpc_index s < length (rpc_endpoints s)"
  shows "retry_loop k d is_connected func retries last_exception s =
    retry_loop k d is_connected func (retries + 1) (Some (err (calls (effects s))))
      (s\<lparr>current_rpc_index := (current_rpc_index s + 1) mod length (rpc_endpoints s),
         w3 := Some (rpc_endpoints s ! ((current_rpc_index s + 1) mod length (rpc_endpoints s))),
         effects := effects s @
           [Call, Rotate, Probe (rpc_endpoints s ! ((current_rpc_index s + 1) mod length (rpc_endpoints s)))]\<rparr>)"
proof -
  let ?N = "length (rpc_endpoints s)"
  let ?s1 = "perform Rotate (perform Call s\<lparr>current_rpc_index := (current_rpc_index s + 1) mod ?N\<rparr>)"
  have N: "0 < ?N" using idx by auto
  have rot: "rotate_rpc (perform Call s) = Inr ?s1"
    using N by (simp add: rotate_rpc_def perform_def)
  have i1: "current_rpc_index ?s1 < length (rpc_endpoints ?s1)"
    using N by (simp add: perform_def)
  have con: "connect is_connected ?s1 =
     (Inr True, perform (Probe (rpc_endpoints ?s1 ! current_rpc_index ?s1))
                  (?s1\<lparr>w3 := Some (rpc_endpoints ?s1 ! current_rpc_index ?s1)\<rparr>))"
    using connect_live [OF i1 live] .
  show ?thesis
    using guard kth fails transient rot con
    by (subst retry_loop.simps) (simp add: perform_def)
qed

lemma retry_loop_block:
  assumes fails: "\<And>h. func h = Raises (err (calls h))"
    and transient: "\<And>i. is_transient (err i)"
    and live: "\<And>h ep. is_connected h ep = Live"
    and k: "0 < k"
    and mult: "retries = q * k"
    and q: "q < length (rpc_endpoints s)"
    and idx: "current_rpc_index s < length (rpc_endpoints s)"
  shows "retry_loop k d is_connected func retries last_exception s =
    retry_loop k d is_connected func (retries + k) (Some (err (calls (effects s) + k - 1)))
      (s\<lparr>current_rpc_index := (current_rpc_index s + 1) mod length (rpc_endpoints s),
         w3 := Some (rpc_endpoints s ! ((current_rpc_index s + 1) mod length (rpc_endpoints s))),
         effects := effects s @ concat (replicate (k - 1) [Call, Sleep d]) @
           [Call, Rotate, Probe (rpc_endpoints s ! ((current_rpc_index s + 1) mod length (rpc_endpoints s)))]\<rparr>)"
proof -
  let ?N = "length (rpc_endpoints s)"
  let ?s1 = "s\<lparr>effects := effects s @ concat (replicate (k - 1) [Call, Sleep d])\<rparr>"
  have "Suc q * k \<le> ?N * k" using q by (intro mult_le_mono1) simp
  then have le: "retries + k \<le> k * ?N" using mult by (simp add: mult.commute)
  have p1: "\<forall>j<k - 1. (retries + j + 1) mod k \<noteq> 0"
  proof (intro allI impI)
    fix j assume "j < k - 1"
    then have "(q * k + (j + 1)) mod k = j + 1" by simp
    then show "(retries + j + 1) mod k \<noteq> 0" using mult by (simp add: add.assoc)
  qed
  have p2: "retries + (k - 1) \<le> k * ?N" using le by simp
  have sleep: "retry_loop k d is_connected func retries last_exception s =
     retry_loop k d is_connected func (retries + (k - 1))
       (if k - 1 = 0 then last_exception else Some (err (calls (effects s) + (k - 1) - 1))) ?s1"
    using retry_loop_sleep_phase [of func err "k - 1" retries k s d is_connected last_exception,
        OF fails transient p1 p2] .
  have g: "retries + (k - 1) < k * length (rpc_endpoints ?s1)" using le k by simp
  have kth: "(retries + (k - 1) + 1) mod k = 0" using k mult by simp
  have i1: "current_rpc_index ?s1 < length (rpc_endpoints ?s1)" using idx by simp
  have c1: "calls (effects ?s1) = calls (effects s) + k - 1"
    using k by (simp add: calls_replicate_sleep)
  have r1: "retries + (k - 1) + 1 = retries + k" using k by simp
  have rot: "retry_loop k d is_connected func (retries + (k - 1))
       (if k - 1 = 0 then last_exception else Some (err (calls (effects s) + (k - 1) - 1))) ?s1 =
     retry_loop k d is_connected func (retries + (k - 1) + 1) (Some (err (calls (effects ?s1))))
       (?s1\<lparr>current_rpc_index := (current_rpc_index ?s1 + 1) mod length (rpc_endpoints ?s1),
         w3 := Some (rpc_endpoints ?s1 ! ((current_rpc_index ?s1 + 1) mod length (rpc_endpoints ?s1))),
         effects := effects ?s1 @
           [Call, Rotate, Probe (rpc_endpoints ?s1 ! ((current_rpc_index ?s1 + 1) mod length (rpc_endpoints ?s1)))]\<rparr>)"
    by (rule retry_loop_rotate_step [where err = err and func = func, OF fails transient live g kth i1])
  show ?thesis
    unfolding sleep rot r1 c1 by simp
qed


lemma calls_blocks:
  "0 < k \<Longrightarrow>
   calls (concat (map (\<lambda>j. concat (replicate (k - 1) [Call, Sleep d]) @ [Call, Rotate, Probe (f j)])
            [0..<n])) = n * k"
  by (induction n) (simp_all add: calls_replicate_sleep)

lemma retry_loop_blocks:
  assumes fails: "\<And>h. func h = Raises (err (calls h))"
    and transient: "\<And>i. is_transient (err i)"
    and live: "\<And>h ep. is_connected h ep = Live"
    and k: "0 < k"
    and idx: "current_rpc_index s < length (rpc_endpoints s)"
  shows "n \<le> length (rpc_endpoints s) \<Longrightarrow>
    retry_loop k d is_connected func 0 None s =
    retry_loop k d is_connected func (n * k)
      (if n = 0 then None else Some (err (calls (effects s) + n * k - 1)))
      (s\<lparr>current_rpc_index := (current_rpc_index s + n) mod length (rpc_endpoints s),
         w3 := (if n = 0 then w3 s
                else Some (rpc_endpoints s ! ((current_rpc_index s + n) mod length (rpc_endpoints s)))),
         effects := effects s @
           concat (map (\<lambda>j. concat (replicate (k - 1) [Call, Sleep d]) @
                     [Call, Rotate,
                      Probe (rpc_endpoints s ! ((current_rpc_index s + j + 1) mod length (rpc_endpoints s)))])
                   [0..<n])\<rparr>)"
proof (induction n)
  case 0
  show ?case using idx by simp
next
  case (Suc n)
  let ?N = "length (rpc_endpoints s)"
  let ?i = "current_rpc_index s"
  let ?blocks = "\<lambda>n. concat (map (\<lambda>j. concat (replicate (k - 1) [Call, Sleep d]) @
                     [Call, Rotate, Probe (rpc_endpoints s ! ((?i + j + 1) mod ?N))]) [0..<n])"
  let ?sn = "s\<lparr>current_rpc_index := (?i + n) mod ?N,
         w3 := (if n = 0 then w3 s else Some (rpc_endpoints s ! ((?i + n) mod ?N))),
         effects := effects s @ ?blocks n\<rparr>"
  let ?ln = "if n = 0 then None else Some (err (calls (effects s) + n * k - 1))"
  have N: "0 < ?N" "n < ?N" using Suc.prems by auto
  have IH: "retry_loop k d is_connected func 0 None s = retry_loop k d is_connected func (n * k) ?ln ?sn"
    using Suc.IH N by simp
  have q: "n < length (rpc_endpoints ?sn)" using N by simp
  have i: "current_rpc_index ?sn < length (rpc_endpoints ?sn)" using N by simp
  have blk: "retry_loop k d is_connected func (n * k) ?ln ?sn =
    retry_loop k d is_connected func (n * k + k) (Some (err (calls (effects ?sn) + k - 1)))
      (?sn\<lparr>current_rpc_index := (current_rpc_index ?sn + 1) mod length (rpc_endpoints ?sn),
         w3 := Some (rpc_endpoints ?sn ! ((current_rpc_index ?sn + 1) mod length (rpc_endpoints ?sn))),
         effects := effects ?sn @ concat (replicate (k - 1) [Call, Sleep d]) @
           [Call, Rotate, Probe (rpc_endpoints ?sn ! ((current_rpc_index ?sn + 1) mod length (rpc_endpoints ?sn)))]\<rparr>)"
    by (rule retry_loop_block [where err = err and func = func and q = n,
          OF fails transient live k refl q i])
  have cb: "calls (?blocks n) = n * k"
    by (rule calls_blocks [OF k])
  have ce: "effects ?sn = effects s @ ?blocks n" by simp
  have c: "calls (effects ?sn) + k - 1 = calls (effects s) + Suc n * k - 1"
    unfolding ce calls_append cb using k by simp
  have m: "((?i + n) mod ?N + 1) mod ?N = (?i + Suc n) mod ?N"
    by (simp add: mod_Suc_eq)
  show ?case
    unfolding IH blk c
    using m by (simp add: add.commute)
qed

lemma retry_loop_all_live:
  assumes fails: "\<And>h. func h = Raises (err (calls h))"
    and transient: "\<And>i. is_transient (err i)"
    and live: "\<And>h ep. is_connected h ep = Live"
    and k: "0 < k"
    and idx: "current_rpc_index s < length (rpc_endpoints s)"
  shows "retry_loop k d is_connected func 0 None s =
     (Inl (err (calls (effects s) + k * length (rpc_endpoints s) - 1)),
      s\<lparr>w3 := Some (rpc_endpoints s ! current_rpc_index s),
        effects := effects s @
           concat (map (\<lambda>j. concat (replicate (k - 1) [Call, Sleep d]) @
                     [Call, Rotate,
                      Probe (rpc_endpoints s ! ((current_rpc_index s + j + 1) mod length (rpc_endpoints s)))])
                   [0..<length (rpc_endpoints s)])\<rparr>)"
proof -
  have N: "0 < length (rpc_endpoints s)" using idx by auto
  show ?thesis
    unfolding retry_loop_blocks [where err = err and n = "length (rpc_endpoints s)",
        OF fails transient live k idx order_refl]
    using N idx by (subst retry_loop.simps) (simp add: mult.commute)
qed

text \<open>Whatever the endpoints answer: the last error, or the error of a failed reconnection.\<close>

lemma retry_loop_all_transient:
  "\<forall>h. func h = Raises (err (calls h)) \<Longrightarrow> \<forall>i. is_transient (err i) \<Longrightarrow>
    current_rpc_index s < length (rpc_endpoints s) \<Longrightarrow>
    retries < k * length (rpc_endpoints s) \<Longrightarrow>
    (fst (retry_loop k d is_connected func retries last_exception s) =
         Inl (err (calls (effects s) + (k * length (rpc_endpoints s) - retries) - 1)) \<and>
     calls (effects (snd (retry_loop k d is_connected func retries last_exception s))) =
         calls (effects s) + (k * length (rpc_endpoints s) - retries))
    \<or> fst (retry_loop k d is_connected func retries last_exception s) =
         Inl (ConnectionError ''Failed to connect to any RPC endpoint'')"
proof (induction k d is_connected func retries last_exception s rule: retry_loop.induct)
  case (1 k d is_connected func retries last_exception s)
  let ?N = "length (rpc_endpoints s)"
  let ?e = "err (calls (effects s))"
  have guard: "retries < k * ?N" using "1.prems" by simp
  have raises: "func (effects s) = Raises ?e" using "1.prems"(1) by simp
  have tr: "is_transient ?e" using "1.prems"(2) by simp
  show ?case
  proof (cases "(retries + 1) mod k = 0")
    case False
    let ?s1 = "perform (Sleep d) (perform Call s)"
    have step: "retry_loop k d is_connected func retries last_exception s =
                retry_loop k d is_connected func (retries + 1) (Some ?e) ?s1"
      using guard raises tr False by (subst retry_loop.simps) simp
    show ?thesis
    proof (cases "retries + 1 < k * ?N")
      case True
      have "(fst (retry_loop k d is_connected func (retries + 1) (Some ?e) ?s1) =
               Inl (err (calls (effects ?s1) + (k * length (rpc_endpoints ?s1) - (retries + 1)) - 1)) \<and>
             calls (effects (snd (retry_loop k d is_connected func (retries + 1) (Some ?e) ?s1))) =
               calls (effects ?s1) + (k * length (rpc_endpoints ?s1) - (retries + 1)))
            \<or> fst (retry_loop k d is_connected func (retries + 1) (Some ?e) ?s1) =
               Inl (ConnectionError ''Failed to connect to any RPC endpoint'')"
        using "1.IH"(2) [OF guard raises tr False "1.prems"(1) "1.prems"(2)] "1.prems"(3) True
        by (simp add: perform_def)
      moreover have "calls (effects ?s1) + (k * length (rpc_endpoints ?s1) - (retries + 1))
                     = calls (effects s) + (k * ?N - retries)"
        using guard by (simp add: perform_def)
      ultimately show ?thesis unfolding step by simp
    next
      case False
      then have eq: "k * ?N - retries = 1" using guard by simp
      have "retry_loop k d is_connected func (retries + 1) (Some ?e) ?s1 = (Inl ?e, ?s1)"
        using False by (subst retry_loop.simps) (simp add: perform_def)
      then show ?thesis unfolding step eq by (simp add: perform_def)
    qed
  next
    case kth: True
    obtain s1 where rot: "rotate_rpc (perform Call s) = Inr s1"
      using "1.prems"(3) by (cases "rpc_endpoints s") (auto simp: rotate_rpc_def perform_def)
    have c1: "calls (effects s1) = Suc (calls (effects s))"
      using rotate_rpc_calls [OF rot] by (simp add: perform_def)
    have e1: "rpc_endpoints s1 = rpc_endpoints s"
      using rotate_rpc_endpoints [OF rot] by (simp add: perform_def)
    have i1: "current_rpc_index s1 < length (rpc_endpoints s1)"
      using rotate_rpc_index [OF rot] .
    obtain r s2 where c: "connect is_connected s1 = (r, s2)"
      by (cases "connect is_connected s1") auto
    have c2: "calls (effects s2) = Suc (calls (effects s))"
      using connect_calls [OF c] c1 by simp
    have e2: "rpc_endpoints s2 = rpc_endpoints s"
      using connect_endpoints [OF c] e1 by simp
    have i2: "current_rpc_index s2 < length (rpc_endpoints s2)"
      using connect_index [OF c i1] .
    show ?thesis
    proof (cases r)
      case (Inl e')
      then have "e' = ConnectionError ''Failed to connect to any RPC endpoint''"
        using connect_error [of is_connected s1 e' s2] c i1 by simp
      then show ?thesis using guard raises tr kth rot c Inl
        by (subst (3) retry_loop.simps) simp
    next
      case (Inr b)
      have step: "retry_loop k d is_connected func retries last_exception s =
                  retry_loop k d is_connected func (retries + 1) (Some ?e) s2"
        using guard raises tr kth rot c Inr by (subst retry_loop.simps) simp
      show ?thesis
      proof (cases "retries + 1 < k * ?N")
        case True
        have "(fst (retry_loop k d is_connected func (retries + 1) (Some ?e) s2) =
                 Inl (err (calls (effects s2) + (k * length (rpc_endpoints s2) - (retries + 1)) - 1)) \<and>
               calls (effects (snd (retry_loop k d is_connected func (retries + 1) (Some ?e) s2))) =
                 calls (effects s2) + (k * length (rpc_endpoints s2) - (retries + 1)))
              \<or> fst (retry_loop k d is_connected func (retries + 1) (Some ?e) s2) =
                 Inl (ConnectionError ''Failed to connect to any RPC endpoint'')"
          using "1.IH"(1) [OF guard raises tr kth rot c [symmetric] Inr "1.prems"(1) "1.prems"(2) i2] True e2
          by simp
        moreover have "calls (effects s2) + (k * length (rpc_endpoints s2) - (retries + 1))
                       = calls (effects s) + (k * ?N - retries)"
          using guard c2 e2 by simp
        ultimately show ?thesis unfolding step by simp
      next
        case False
        then have eq: "k * ?N - retries = 1" using guard by simp
        have "retry_loop k d is_connected func (retries + 1) (Some ?e) s2 = (Inl ?e, s2)"
          using False e2 by (subst retry_loop.simps) simp
        then show ?thesis unfolding step eq using c2 by simp
      qed
    qed
  qed
qed

lemma mset_rotate_eq: "mset (rotate n xs) = mset xs"
proof -
  let ?k = "n mod length xs"
  have "mset (rotate n xs) = mset (drop ?k xs @ take ?k xs)"
    by (simp only: rotate_drop_take)
  also have "\<dots> = mset (take ?k xs @ drop ?k xs)"
    by (simp only: mset_append add.commute)
  finally show ?thesis by simp
qed

text \<open>
  C6. If every endpoint fails its liveness probe (it says no or raises), \<open>_connect\<close>
  started with the cursor inside the list probes the endpoints in list order read
  circularly from the cursor, every position once, rotating after each failed probe, and
  then raises ConnectionError with the cursor back where it started.
\<close>

theorem connect_all_endpoints_fail:
  assumes "\<And>h ep. is_connected h ep \<noteq> Live"
    and "current_rpc_index s < length (rpc_endpoints s)"
  shows "fst (connect is_connected s) = Inl (ConnectionError ''Failed to connect to any RPC endpoint'')
    \<and> effects (snd (connect is_connected s)) =
        effects s @ concat (map (\<lambda>ep. [Probe ep, Rotate]) (rotate (current_rpc_index s) (rpc_endpoints s)))
    \<and> mset (rotate (current_rpc_index s) (rpc_endpoints s)) = mset (rpc_endpoints s)
    \<and> length (rotate (current_rpc_index s) (rpc_endpoints s)) = length (rpc_endpoints s)
    \<and> current_rpc_index (snd (connect is_connected s)) = current_rpc_index s"
  using connect_all_fail [of is_connected s, OF assms] by (simp add: mset_rotate_eq)

theorem connect_all_endpoints_fail_witness:
  "fst (connect (\<lambda>h ep. if ep = ''b'' then Broken else Dead)
          \<lparr>rpc_endpoints = [''a'', ''b'', ''c''], current_rpc_index = 1, w3 = None, effects = []\<rparr>)
     = Inl (ConnectionError ''Failed to connect to any RPC endpoint'')
   \<and> effects (snd (connect (\<lambda>h ep. if ep = ''b'' then Broken else Dead)
          \<lparr>rpc_endpoints = [''a'', ''b'', ''c''], current_rpc_index = 1, w3 = None, effects = []\<rparr>))
     = [Probe ''b'', Rotate, Probe ''c'', Rotate, Probe ''a'', Rotate]"
  using connect_all_endpoints_fail [of "\<lambda>h ep. if ep = ''b'' then Broken else Dead"
      "\<lparr>rpc_endpoints = [''a'', ''b'', ''c''], current_rpc_index = 1, w3 = None, effects = []\<rparr>"]
  by simp

text \<open>
  C9. In any iteration of the retry loop, an exception of the operation that is neither a
  Web3Exception nor a RequestException leaves \<open>execute_with_retry\<close> at once: the
  manager is as before but for the one invocation, with no sleep, no rotation and no
  probe. In particular when it is the first invocation's.
\<close>

theorem other_error_propagates:
  assumes "func (effects s) = Raises e" and "\<not> is_transient e"
    and "retries < MAX_RETRIES * length (rpc_endpoints s)"
  shows "retry_loop MAX_RETRIES RETRY_DELAY is_connected func retries last_exception s
           = (Inl e, s\<lparr>effects := effects s @ [Call]\<rparr>)
     \<and> (retries = 0 \<longrightarrow>
          execute_with_retry is_connected func s = (Inl e, s\<lparr>effects := effects s @ [Call]\<rparr>))"
proof -
  have "retry_loop MAX_RETRIES RETRY_DELAY is_connected func retries last_exception s
           = (Inl e, s\<lparr>effects := effects s @ [Call]\<rparr>)"
    using assms by (subst retry_loop.simps) (simp add: perform_def)
  moreover have "retry_loop MAX_RETRIES RETRY_DELAY is_connected func 0 None s
           = (Inl e, s\<lparr>effects := effects s @ [Call]\<rparr>)" if "retries = 0"
    using assms that by (subst retry_loop.simps) (simp add: perform_def)
  ultimately show ?thesis by (simp add: execute_with_retry_def)
qed

theorem other_error_propagates_witness:
  "execute_with_retry (\<lambda>h ep. Live) (\<lambda>h. (Raises (KeyError ''timestamp'') :: int outcome))
      \<lparr>rpc_endpoints = [''a'', ''b''], current_rpc_index = 0, w3 = Some ''a'', effects = [Probe ''a'']\<rparr>
   = (Inl (KeyError ''timestamp''),
      \<lparr>rpc_endpoints = [''a'', ''b''], current_rpc_index = 0, w3 = Some ''a'',
       effects = [Probe ''a'', Call]\<rparr>)"
  using other_error_propagates [of "\<lambda>h. (Raises (KeyError ''timestamp'') :: int outcome)"
      "\<lparr>rpc_endpoints = [''a'', ''b''], current_rpc_index = 0, w3 = Some ''a'', effects = [Probe ''a'']\<rparr>"
      "KeyError ''timestamp''" 0 "\<lambda>h ep. Live" None]
  by (simp add: MAX_RETRIES_def)

text \<open>
  C2 as stated fails: with a single endpoint that no longer answers its liveness probe,
  an operation that always raises a Web3Exception is invoked three times, and the
  reconnection after the third failure raises ConnectionError out of
  \<open>execute_with_retry\<close>; the last error of the operation is not what the caller sees.
\<close>

theorem execute_with_retry_dead_endpoint:
  "execute_with_retry (\<lambda>h ep. Dead) (\<lambda>h. (Raises (Web3Exception ''timeout'') :: int outcome))
      \<lparr>rpc_endpoints = [''a''], current_rpc_index = 0, w3 = Some ''a'', effects = []\<rparr>
   = (Inl (ConnectionError ''Failed to connect to any RPC endpoint''),
      \<lparr>rpc_endpoints = [''a''], current_rpc_index = 0, w3 = Some ''a'',
       effects = [Call, Sleep 2, Call, Sleep 2, Call, Rotate, Probe ''a'', Rotate]\<rparr>)"
  by (simp add: execute_with_retry_def retry_loop.simps MAX_RETRIES_def RETRY_DELAY_def
      connect_def rotate_rpc_def perform_def Let_def)

subsection \<open>The rounds of the retry loop\<close>

text \<open>
  One round, whatever the endpoints answer: \<open>k\<close> invocations with a sleep after each
  but the last, the rotation, and \<open>_connect\<close>, whose exception leaves the loop.
\<close>

lemma retry_loop_round:
  assumes fails: "\<And>h. func h = Raises (err (calls h))"
    and transient: "\<And>i. is_transient (err i)"
    and k: "0 < k"
    and mult: "retries = q * k"
    and q: "q < length (rpc_endpoints s)"
  shows "retry_loop k d is_connected func retries last_exception s =
    (case connect is_connected
            (perform Rotate
               (s\<lparr>current_rpc_index := (current_rpc_index s + 1) mod length (rpc_endpoints s),
                  effects := effects s @ concat (replicate (k - 1) [Call, Sleep d]) @ [Call]\<rparr>)) of
       (Inl e', s2) \<Rightarrow> (Inl e', s2)
     | (Inr b, s2) \<Rightarrow>
         retry_loop k d is_connected func (retries + k) (Some (err (calls (effects s) + k - 1))) s2)"
proof -
  let ?N = "length (rpc_endpoints s)"
  let ?s1 = "s\<lparr>effects := effects s @ concat (replicate (k - 1) [Call, Sleep d])\<rparr>"
  have N: "0 < ?N" using q by auto
  have "Suc q * k \<le> ?N * k" using q by (intro mult_le_mono1) simp
  then have le: "retries + k \<le> k * ?N" using mult by (simp add: mult.commute)
  have p1: "\<forall>j<k - 1. (retries + j + 1) mod k \<noteq> 0"
  proof (intro allI impI)
    fix j assume "j < k - 1"
    then have "(q * k + (j + 1)) mod k = j + 1" by simp
    then show "(retries + j + 1) mod k \<noteq> 0" using mult by (simp add: add.assoc)
  qed
  have p2: "retries + (k - 1) \<le> k * ?N" using le by simp
  have sleep: "retry_loop k d is_connected func retries last_exception s =
     retry_loop k d is_connected func (retries + (k - 1))
       (if k - 1 = 0 then last_exception else Some (err (calls (effects s) + (k - 1) - 1))) ?s1"
    using retry_loop_sleep_phase [of func err "k - 1" retries k s d is_connected last_exception,
        OF fails transient p1 p2] .
  have g: "retries + (k - 1) < k * length (rpc_endpoints ?s1)" using le k by simp
  have kth: "(retries + (k - 1) + 1) mod k = 0" using k mult by simp
  have c1: "calls (effects ?s1) = calls (effects s) + k - 1"
    using k by (simp add: calls_replicate_sleep)
  have r1: "retries + (k - 1) + 1 = retries + k" using k by simp
  have kth2: "(retries + k) mod k = 0" using mult by simp
  have rot: "rotate_rpc (perform Call ?s1) =
     Inr (perform Rotate
            (s\<lparr>current_rpc_index := (current_rpc_index s + 1) mod ?N,
               effects := effects s @ concat (replicate (k - 1) [Call, Sleep d]) @ [Call]\<rparr>))"
    using N by (simp add: rotate_rpc_def perform_def)
  have f1: "func (effects ?s1) = Raises (err (calls (effects s) + k - 1))"
    using fails [of "effects ?s1"] c1 by simp
  show ?thesis
    unfolding sleep
    apply (subst retry_loop.simps)
    apply (simp only: g if_True f1 outcome.case transient kth kth2 rot sum.case r1 simp_thms)
    done
qed

text \<open>
  \<open>_connect\<close> when the endpoints' answers do not change and one of those it reaches
  is live: it stops at the first live one.
\<close>

lemma connect_loop_finds:
  assumes ti: "\<And>h ep. is_connected h ep = live ep"
  shows "current_rpc_index s < length (rpc_endpoints s) \<Longrightarrow>
    \<exists>j<n. live (rpc_endpoints s ! ((current_rpc_index s + j) mod length (rpc_endpoints s))) = Live \<Longrightarrow>
    \<exists>r i. connect_loop is_connected n endpoint s =
            (Inr True, s\<lparr>current_rpc_index := i, w3 := Some (rpc_endpoints s ! i),
                          effects := effects s @ r\<rparr>)
          \<and> i < length (rpc_endpoints s) \<and> live (rpc_endpoints s ! i) = Live
          \<and> r \<noteq> [] \<and> last r = Probe (rpc_endpoints s ! i) \<and> calls r = 0 \<and> backoffs r = []"
proof (induction n arbitrary: endpoint s)
  case 0
  then show ?case by simp
next
  case (Suc n)
  let ?N = "length (rpc_endpoints s)"
  let ?c = "current_rpc_index s"
  let ?ep = "rpc_endpoints s ! ?c"
  let ?s1 = "perform (Probe ?ep) (s\<lparr>w3 := Some ?ep\<rparr>)"
  let ?s2 = "perform Rotate (?s1\<lparr>current_rpc_index := (?c + 1) mod ?N\<rparr>)"
  have N: "0 < ?N" using Suc.prems(1) by auto
  show ?case
  proof (cases "live ?ep = Live")
    case True
    then have "connect_loop is_connected (Suc n) endpoint s = (Inr True, ?s1)"
      using Suc.prems(1) ti by (simp add: Let_def)
    moreover have "?s1 = s\<lparr>current_rpc_index := ?c, w3 := Some (rpc_endpoints s ! ?c),
                          effects := effects s @ [Probe ?ep]\<rparr>"
      by (simp add: perform_def)
    ultimately show ?thesis
      using True Suc.prems(1)
      by (intro exI [of _ "[Probe ?ep]"] exI [of _ ?c]) simp
  next
    case False
    have rot: "rotate_rpc ?s1 = Inr ?s2"
      using N by (simp add: rotate_rpc_def perform_def)
    have nl: "is_connected (effects s) ?ep \<noteq> Live"
      using False ti by simp
    have step: "connect_loop is_connected (Suc n) endpoint s = connect_loop is_connected n (Some ?ep) ?s2"
      using Suc.prems(1) rot nl by (cases "is_connected (effects s) ?ep") (simp_all add: Let_def)
    have i2: "current_rpc_index ?s2 < length (rpc_endpoints ?s2)"
      using N by (simp add: perform_def)
    obtain j where j: "j < Suc n" "live (rpc_endpoints s ! ((?c + j) mod ?N)) = Live"
      using Suc.prems(2) by blast
    have "j \<noteq> 0"
      using j(2) False Suc.prems(1) by (cases j) auto
    then obtain j' where j': "j = Suc j'" "j' < n"
      using j(1) by (cases j) auto
    have "((?c + 1) mod ?N + j') mod ?N = (?c + j) mod ?N"
      using j'(1) by (simp add: mod_add_left_eq)
    then have "live (rpc_endpoints ?s2 ! ((current_rpc_index ?s2 + j') mod length (rpc_endpoints ?s2))) = Live"
      using j(2) by (simp add: perform_def)
    then have ex: "\<exists>j<n. live (rpc_endpoints ?s2 ! ((current_rpc_index ?s2 + j) mod length (rpc_endpoints ?s2))) = Live"
      using j'(2) by blast
    obtain r i where ri:
      "connect_loop is_connected n (Some ?ep) ?s2 =
         (Inr True, ?s2\<lparr>current_rpc_index := i, w3 := Some (rpc_endpoints ?s2 ! i),
                       effects := effects ?s2 @ r\<rparr>)"
      "i < length (rpc_endpoints ?s2)" "live (rpc_endpoints ?s2 ! i) = Live"
      "r \<noteq> []" "last r = Probe (rpc_endpoints ?s2 ! i)" "calls r = 0" "backoffs r = []"
      using Suc.IH [OF i2 ex, of "Some ?ep"] by blast
    have eq: "?s2\<lparr>current_rpc_index := i, w3 := Some (rpc_endpoints ?s2 ! i),
                 effects := effects ?s2 @ r\<rparr>
            = s\<lparr>current_rpc_index := i, w3 := Some (rpc_endpoints s ! i),
                 effects := effects s @ (Probe ?ep # Rotate # r)\<rparr>"
      by (simp add: perform_def)
    have e2: "rpc_endpoints ?s2 = rpc_endpoints s"
      by (simp add: perform_def)
    show ?thesis
      unfolding step ri(1) eq
      using ri(2-7) unfolding e2
      by (intro exI [of _ "Probe ?ep # Rotate # r"] exI [of _ i]) simp
  qed
qed

lemma connect_finds:
  assumes ti: "\<And>h ep. is_connected h ep = live ep"
    and idx: "current_rpc_index s < length (rpc_endpoints s)"
    and some: "\<exists>ep\<in>set (rpc_endpoints s). live ep = Live"
  shows "\<exists>r i. connect is_connected s =
            (Inr True, s\<lparr>current_rpc_index := i, w3 := Some (rpc_endpoints s ! i),
                          effects := effects s @ r\<rparr>)
          \<and> i < length (rpc_endpoints s) \<and> live (rpc_endpoints s ! i) = Live
          \<and> r \<noteq> [] \<and> last r = Probe (rpc_endpoints s ! i) \<and> calls r = 0 \<and> backoffs r = []"
proof -
  let ?N = "length (rpc_endpoints s)"
  let ?c = "current_rpc_index s"
  obtain i where i: "i < ?N" "live (rpc_endpoints s ! i) = Live"
    using some by (auto simp: in_set_conv_nth)
  let ?j = "(i + ?N - ?c) mod ?N"
  have N: "0 < ?N" using idx by auto
  have "(?c + ?j) mod ?N = (?c + (i + ?N - ?c)) mod ?N"
    by (simp add: mod_add_right_eq)
  also have "\<dots> = (i + ?N) mod ?N"
    using idx by simp
  also have "\<dots> = i"
    using i(1) by simp
  finally have "live (rpc_endpoints s ! ((?c + ?j) mod ?N)) = Live"
    using i(2) by simp
  moreover have "?j < ?N"
    using N by simp
  ultimately have "\<exists>j<?N. live (rpc_endpoints s ! ((?c + j) mod ?N)) = Live"
    by blast
  then show ?thesis
    unfolding connect_def
    by (rule connect_loop_finds [where live = live and is_connected = is_connected, OF ti idx])
qed


lemma calls_round [simp]:
  "calls (concat (replicate (k - 1) [Call, Sleep d]) @ Call # Rotate # r) = k - 1 + 1 + calls r"
  by (simp add: calls_replicate_sleep)

text \<open>
  The rounds left when the endpoints' answers do not change and one endpoint is live:
  every reconnection succeeds, and after the last round the last error is raised.
\<close>

lemma retry_loop_rounds:
  assumes fails: "\<And>h. func h = Raises (err (calls h))"
    and transient: "\<And>i. is_transient (err i)"
    and ti: "\<And>h ep. is_connected h ep = live ep"
    and k: "0 < k"
  shows "q + m = length (rpc_endpoints s) \<Longrightarrow>
    current_rpc_index s < length (rpc_endpoints s) \<Longrightarrow>
    \<exists>ep\<in>set (rpc_endpoints s). live ep = Live \<Longrightarrow>
    \<exists>rs s'. retry_loop k d is_connected func (q * k) last_exception s =
        (Inl (case (if m = 0 then last_exception
                    else Some (err (calls (effects s) + m * k - 1))) of
                Some e \<Rightarrow> e | None \<Rightarrow> Exception ''Max retries exceeded''), s')
      \<and> length rs = m
      \<and> effects s' = effects s @
           concat (map (\<lambda>r. concat (replicate (k - 1) [Call, Sleep d]) @ Call # Rotate # r) rs)
      \<and> rpc_endpoints s' = rpc_endpoints s
      \<and> current_rpc_index s' < length (rpc_endpoints s)
      \<and> (\<forall>r\<in>set rs. r \<noteq> [] \<and> calls r = 0 \<and> backoffs r = []
            \<and> (\<exists>ep\<in>set (rpc_endpoints s). live ep = Live \<and> last r = Probe ep))
      \<and> (m = 0 \<longrightarrow> s' = s)
      \<and> (0 < m \<longrightarrow> w3 s' = Some (rpc_endpoints s ! current_rpc_index s')
                    \<and> live (rpc_endpoints s ! current_rpc_index s') = Live)"
proof (induction m arbitrary: q last_exception s)
  case 0
  then have "\<not> q * k < k * length (rpc_endpoints s)"
    by (simp add: mult.commute)
  then have "retry_loop k d is_connected func (q * k) last_exception s =
      (Inl (case last_exception of Some e \<Rightarrow> e | None \<Rightarrow> Exception ''Max retries exceeded''), s)"
    by (subst retry_loop.simps) auto
  then show ?case
    using "0.prems"(2) by (intro exI [of _ "[]"] exI [of _ s]) simp
next
  case (Suc m)
  let ?N = "length (rpc_endpoints s)"
  let ?c = "current_rpc_index s"
  let ?body = "concat (replicate (k - 1) [Call, Sleep d]) @ [Call]"
  let ?s1 = "perform Rotate (s\<lparr>current_rpc_index := (?c + 1) mod ?N, effects := effects s @ ?body\<rparr>)"
  have q: "q < ?N" using Suc.prems(1) by simp
  have N: "0 < ?N" using q by auto
  have round: "retry_loop k d is_connected func (q * k) last_exception s =
    (case connect is_connected ?s1 of
       (Inl e', s2) \<Rightarrow> (Inl e', s2)
     | (Inr b, s2) \<Rightarrow>
         retry_loop k d is_connected func (q * k + k) (Some (err (calls (effects s) + k - 1))) s2)"
    by (rule retry_loop_round [where err = err and q = q, OF fails transient k refl q])
  have i1: "current_rpc_index ?s1 < length (rpc_endpoints ?s1)"
    using N by (simp add: perform_def)
  have e1: "rpc_endpoints ?s1 = rpc_endpoints s"
    by (simp add: perform_def)
  have some1: "\<exists>ep\<in>set (rpc_endpoints ?s1). live ep = Live"
    using Suc.prems(3) unfolding e1 .
  obtain r i where ri:
    "connect is_connected ?s1 =
       (Inr True, ?s1\<lparr>current_rpc_index := i, w3 := Some (rpc_endpoints ?s1 ! i),
                     effects := effects ?s1 @ r\<rparr>)"
    "i < length (rpc_endpoints ?s1)" "live (rpc_endpoints ?s1 ! i) = Live"
    "r \<noteq> []" "last r = Probe (rpc_endpoints ?s1 ! i)" "calls r = 0" "backoffs r = []"
    using connect_finds [where live = live and is_connected = is_connected, OF ti i1 some1] by blast
  let ?s2 = "?s1\<lparr>current_rpc_index := i, w3 := Some (rpc_endpoints ?s1 ! i),
                 effects := effects ?s1 @ r\<rparr>"
  have step: "retry_loop k d is_connected func (q * k) last_exception s =
      retry_loop k d is_connected func (Suc q * k) (Some (err (calls (effects s) + k - 1))) ?s2"
    unfolding round ri(1) by (simp add: add.commute)
  have e2: "rpc_endpoints ?s2 = rpc_endpoints s"
    by (simp add: perform_def)
  have p1: "Suc q + m = length (rpc_endpoints ?s2)"
    using Suc.prems(1) unfolding e2 by simp
  have p2: "current_rpc_index ?s2 < length (rpc_endpoints ?s2)"
    using ri(2) by (simp add: perform_def)
  have p3: "\<exists>ep\<in>set (rpc_endpoints ?s2). live ep = Live"
    using Suc.prems(3) unfolding e2 .
  obtain rs s' where ih:
    "retry_loop k d is_connected func (Suc q * k) (Some (err (calls (effects s) + k - 1))) ?s2 =
        (Inl (case (if m = 0 then Some (err (calls (effects s) + k - 1))
                    else Some (err (calls (effects ?s2) + m * k - 1))) of
                Some e \<Rightarrow> e | None \<Rightarrow> Exception ''Max retries exceeded''), s')"
    "length rs = m"
    "effects s' = effects ?s2 @
           concat (map (\<lambda>r. concat (replicate (k - 1) [Call, Sleep d]) @ Call # Rotate # r) rs)"
    "rpc_endpoints s' = rpc_endpoints ?s2"
    "current_rpc_index s' < length (rpc_endpoints ?s2)"
    "\<forall>r\<in>set rs. r \<noteq> [] \<and> calls r = 0 \<and> backoffs r = []
            \<and> (\<exists>ep\<in>set (rpc_endpoints ?s2). live ep = Live \<and> last r = Probe ep)"
    "m = 0 \<longrightarrow> s' = ?s2"
    "0 < m \<longrightarrow> w3 s' = Some (rpc_endpoints ?s2 ! current_rpc_index s')
                    \<and> live (rpc_endpoints ?s2 ! current_rpc_index s') = Live"
    using Suc.IH [OF p1 p2 p3, of "Some (err (calls (effects s) + k - 1))"] by blast
  have c2: "calls (effects ?s2) = calls (effects s) + k"
    using k ri(6) by (simp add: perform_def calls_replicate_sleep)
  have res: "(case (if m = 0 then Some (err (calls (effects s) + k - 1))
                    else Some (err (calls (effects ?s2) + m * k - 1))) of
                Some e \<Rightarrow> e | None \<Rightarrow> Exception ''Max retries exceeded'')
       = err (calls (effects s) + Suc m * k - 1)"
  proof (cases "m = 0")
    case True
    then show ?thesis by simp
  next
    case False
    have a1: "calls (effects s) + k + m * k - 1 = calls (effects s) + Suc m * k - 1"
      by (simp add: add.assoc)
    show ?thesis
      unfolding c2 by (simp only: False if_False option.case a1)
  qed
  have eff: "effects s' = effects s @
      concat (map (\<lambda>r. concat (replicate (k - 1) [Call, Sleep d]) @ Call # Rotate # r) (r # rs))"
    unfolding ih(3) by (simp add: perform_def)
  have rr: "r \<noteq> [] \<and> calls r = 0 \<and> backoffs r = []
            \<and> (\<exists>ep\<in>set (rpc_endpoints s). live ep = Live \<and> last r = Probe ep)"
    using ri(2-7) unfolding e1 by (auto simp: in_set_conv_nth)
  have all: "\<forall>r\<in>set (r # rs). r \<noteq> [] \<and> calls r = 0 \<and> backoffs r = []
            \<and> (\<exists>ep\<in>set (rpc_endpoints s). live ep = Live \<and> last r = Probe ep)"
    using rr ih(6) unfolding e2 by simp
  have w: "w3 s' = Some (rpc_endpoints s ! current_rpc_index s')
            \<and> live (rpc_endpoints s ! current_rpc_index s') = Live"
  proof (cases "m = 0")
    case True
    then have "s' = ?s2" using ih(7) by simp
    then show ?thesis using ri(3) by (simp add: perform_def)
  next
    case False
    then show ?thesis using ih(8) unfolding e2 by simp
  qed
  have "retry_loop k d is_connected func (q * k) last_exception s =
        (Inl (err (calls (effects s) + Suc m * k - 1)), s')"
    unfolding step ih(1) res ..
  then show ?case
    using ih(2) eff ih(4) ih(5) all w unfolding e2
    by (intro exI [of _ "r # rs"] exI [of _ s']) simp
qed

text \<open>When no endpoint ever answers the probe, the first reconnection fails.\<close>

lemma retry_loop_none_live:
  assumes fails: "\<And>h. func h = Raises (err (calls h))"
    and transient: "\<And>i. is_transient (err i)"
    and dead: "\<And>h ep. is_connected h ep \<noteq> Live"
    and k: "0 < k"
    and idx: "current_rpc_index s < length (rpc_endpoints s)"
  shows "retry_loop k d is_connected func 0 last_exception s =
     (Inl (ConnectionError ''Failed to connect to any RPC endpoint''),
      s\<lparr>current_rpc_index := (current_rpc_index s + 1) mod length (rpc_endpoints s),
        w3 := Some (rpc_endpoints s ! current_rpc_index s),
        effects := effects s @ concat (replicate (k - 1) [Call, Sleep d]) @ [Call, Rotate] @
          concat (map (\<lambda>ep. [Probe ep, Rotate])
                    (rotate ((current_rpc_index s + 1) mod length (rpc_endpoints s))
                       (rpc_endpoints s)))\<rparr>)"
proof -
  let ?N = "length (rpc_endpoints s)"
  let ?c = "current_rpc_index s"
  let ?body = "concat (replicate (k - 1) [Call, Sleep d]) @ [Call]"
  let ?s1 = "perform Rotate (s\<lparr>current_rpc_index := (?c + 1) mod ?N, effects := effects s @ ?body\<rparr>)"
  have N: "0 < ?N" using idx by auto
  have round: "retry_loop k d is_connected func 0 last_exception s =
    (case connect is_connected ?s1 of
       (Inl e', s2) \<Rightarrow> (Inl e', s2)
     | (Inr b, s2) \<Rightarrow>
         retry_loop k d is_connected func (0 + k) (Some (err (calls (effects s) + k - 1))) s2)"
    by (rule retry_loop_round [where err = err and q = 0, OF fails transient k _ N]) simp
  have i1: "current_rpc_index ?s1 < length (rpc_endpoints ?s1)"
    using N by (simp add: perform_def)
  have m: "((?c + 1) mod ?N + ?N - 1) mod ?N = ?c"
  proof -
    have "(?c + 1) mod ?N + ?N - 1 = (?c + 1) mod ?N + (?N - 1)"
      using N by arith
    then have "((?c + 1) mod ?N + ?N - 1) mod ?N = ((?c + 1) + (?N - 1)) mod ?N"
      by (simp add: mod_add_left_eq)
    also have "(?c + 1) + (?N - 1) = ?c + ?N"
      using N by arith
    also have "(?c + ?N) mod ?N = ?c"
      using idx by simp
    finally show ?thesis .
  qed
  have con: "connect is_connected ?s1 =
      (Inl (ConnectionError ''Failed to connect to any RPC endpoint''),
       ?s1\<lparr>current_rpc_index := current_rpc_index ?s1,
         w3 := Some (rpc_endpoints ?s1 ! ((current_rpc_index ?s1 + length (rpc_endpoints ?s1) - 1) mod length (rpc_endpoints ?s1))),
         effects := effects ?s1 @
           concat (map (\<lambda>ep. [Probe ep, Rotate]) (rotate (current_rpc_index ?s1) (rpc_endpoints ?s1)))\<rparr>)"
    by (rule connect_all_fail [OF dead i1])
  show ?thesis
    unfolding round con using m by (simp add: perform_def)
qed


lemma calls_rounds:
  "\<forall>r\<in>set rs. calls r = 0 \<Longrightarrow> 0 < k \<Longrightarrow>
   calls (concat (map (\<lambda>r. concat (replicate (k - 1) [Call, Sleep d]) @ Call # Rotate # r) rs))
     = k * length rs"
  by (induction rs) (simp_all add: calls_replicate_sleep)

text \<open>
  C2, amended. Let the i-th invocation of the operation raise \<open>err i\<close>, always a
  Web3Exception or a RequestException, and let the cursor be inside the endpoint list.
  Then \<open>execute_with_retry\<close> returns (the function is total), having invoked the
  operation at most MAX\_RETRIES times the number of endpoints. It proceeds in rounds,
  one per endpoint: MAX\_RETRIES invocations with a sleep of RETRY\_DELAY after each
  but the last, then the rotation and \<open>_connect\<close>; if \<open>_connect\<close> raises, that
  exception is raised, otherwise the next round begins, and when as many rounds as
  there are endpoints are done the last error is raised. So it raises either the error
  of the last of exactly MAX\_RETRIES times the number of endpoints invocations, or the
  ConnectionError of a reconnection that found no live endpoint. When the endpoints'
  answers to the probe do not change and one of them is live, every reconnection ends
  with the probe of a live endpoint and the last error is raised after all the rounds;
  when every probe succeeds a reconnection is one probe of the next endpoint and the
  cursor ends where it started; when no endpoint ever answers, the ConnectionError is
  raised after the first round, each endpoint having been probed once.
\<close>

theorem execute_with_retry_always_transient:
  assumes fails: "\<And>h. func h = Raises (err (calls h))"
    and transient: "\<And>i. is_transient (err i)"
    and idx: "current_rpc_index s < length (rpc_endpoints s)"
  shows "calls (effects (snd (execute_with_retry is_connected func s)))
           \<le> calls (effects s) + MAX_RETRIES * length (rpc_endpoints s)
    \<and> ((fst (execute_with_retry is_connected func s) =
            Inl (err (calls (effects s) + MAX_RETRIES * length (rpc_endpoints s) - 1)) \<and>
         calls (effects (snd (execute_with_retry is_connected func s))) =
            calls (effects s) + MAX_RETRIES * length (rpc_endpoints s))
        \<or> fst (execute_with_retry is_connected func s) =
            Inl (ConnectionError ''Failed to connect to any RPC endpoint''))
    \<and> ((\<forall>h ep. is_connected h ep = Live) \<longrightarrow>
         execute_with_retry is_connected func s =
           (Inl (err (calls (effects s) + MAX_RETRIES * length (rpc_endpoints s) - 1)),
            s\<lparr>w3 := Some (rpc_endpoints s ! current_rpc_index s),
              effects := effects s @
                concat (map (\<lambda>j. concat (replicate (MAX_RETRIES - 1) [Call, Sleep RETRY_DELAY]) @
                          [Call, Rotate,
                           Probe (rpc_endpoints s !
                                    ((current_rpc_index s + j + 1) mod length (rpc_endpoints s)))])
                        [0..<length (rpc_endpoints s)])\<rparr>))
    \<and> ((\<forall>h ep. is_connected h ep = live ep) \<and> (\<exists>ep\<in>set (rpc_endpoints s). live ep = Live) \<longrightarrow>
         (\<exists>rs s'. execute_with_retry is_connected func s =
              (Inl (err (calls (effects s) + MAX_RETRIES * length (rpc_endpoints s) - 1)), s')
            \<and> length rs = length (rpc_endpoints s)
            \<and> effects s' = effects s @
                 concat (map (\<lambda>r. concat (replicate (MAX_RETRIES - 1) [Call, Sleep RETRY_DELAY]) @
                                  Call # Rotate # r) rs)
            \<and> (\<forall>r\<in>set rs. r \<noteq> [] \<and> calls r = 0 \<and> backoffs r = []
                  \<and> (\<exists>ep\<in>set (rpc_endpoints s). live ep = Live \<and> last r = Probe ep))
            \<and> calls (effects s') = calls (effects s) + MAX_RETRIES * length (rpc_endpoints s)
            \<and> rpc_endpoints s' = rpc_endpoints s
            \<and> current_rpc_index s' < length (rpc_endpoints s)
            \<and> w3 s' = Some (rpc_endpoints s ! current_rpc_index s')
            \<and> live (rpc_endpoints s ! current_rpc_index s') = Live))
    \<and> ((\<forall>h ep. is_connected h ep \<noteq> Live) \<longrightarrow>
         execute_with_retry is_connected func s =
           (Inl (ConnectionError ''Failed to connect to any RPC endpoint''),
            s\<lparr>current_rpc_index := (current_rpc_index s + 1) mod length (rpc_endpoints s),
              w3 := Some (rpc_endpoints s ! current_rpc_index s),
              effects := effects s @
                concat (replicate (MAX_RETRIES - 1) [Call, Sleep RETRY_DELAY]) @ [Call, Rotate] @
                concat (map (\<lambda>ep. [Probe ep, Rotate])
                          (rotate ((current_rpc_index s + 1) mod length (rpc_endpoints s))
                             (rpc_endpoints s)))\<rparr>))
    \<and> execute_with_retry is_connected func s
         = retry_loop MAX_RETRIES RETRY_DELAY is_connected func 0 None s
    \<and> (\<forall>q last_exception t. q < length (rpc_endpoints t) \<longrightarrow>
         retry_loop MAX_RETRIES RETRY_DELAY is_connected func (q * MAX_RETRIES) last_exception t =
           (case connect is_connected
                   (perform Rotate
                      (t\<lparr>current_rpc_index := (current_rpc_index t + 1) mod length (rpc_endpoints t),
                         effects := effects t @
                           concat (replicate (MAX_RETRIES - 1) [Call, Sleep RETRY_DELAY]) @ [Call]\<rparr>)) of
              (Inl e', t2) \<Rightarrow> (Inl e', t2)
            | (Inr b, t2) \<Rightarrow>
                retry_loop MAX_RETRIES RETRY_DELAY is_connected func (q * MAX_RETRIES + MAX_RETRIES)
                  (Some (err (calls (effects t) + MAX_RETRIES - 1))) t2))
    \<and> (\<forall>e t. retry_loop MAX_RETRIES RETRY_DELAY is_connected func
                 (length (rpc_endpoints t) * MAX_RETRIES) (Some e) t = (Inl e, t))"
proof -
  let ?N = "length (rpc_endpoints s)"
  have k: "0 < MAX_RETRIES" by (simp add: MAX_RETRIES_def)
  have g: "0 < MAX_RETRIES * ?N" using k idx by auto
  have bound: "calls (effects (snd (execute_with_retry is_connected func s)))
           \<le> calls (effects s) + MAX_RETRIES * ?N"
    using retry_loop_calls_bound [of MAX_RETRIES RETRY_DELAY is_connected func 0 None s]
    by (simp add: execute_with_retry_def)
  have either: "(fst (execute_with_retry is_connected func s) =
            Inl (err (calls (effects s) + MAX_RETRIES * ?N - 1)) \<and>
         calls (effects (snd (execute_with_retry is_connected func s))) =
            calls (effects s) + MAX_RETRIES * ?N)
        \<or> fst (execute_with_retry is_connected func s) =
            Inl (ConnectionError ''Failed to connect to any RPC endpoint'')"
    using retry_loop_all_transient [of func err s 0 MAX_RETRIES RETRY_DELAY is_connected None]
      fails transient idx g
    by (simp add: execute_with_retry_def)
  have live: "execute_with_retry is_connected func s =
           (Inl (err (calls (effects s) + MAX_RETRIES * ?N - 1)),
            s\<lparr>w3 := Some (rpc_endpoints s ! current_rpc_index s),
              effects := effects s @
                concat (map (\<lambda>j. concat (replicate (MAX_RETRIES - 1) [Call, Sleep RETRY_DELAY]) @
                          [Call, Rotate,
                           Probe (rpc_endpoints s !
                                    ((current_rpc_index s + j + 1) mod ?N))])
                        [0..<?N])\<rparr>)"
    if "\<forall>h ep. is_connected h ep = Live"
    unfolding execute_with_retry_def
    by (rule retry_loop_all_live [where err = err, OF fails transient _ k idx]) (simp add: that)
  have some: "\<exists>rs s'. execute_with_retry is_connected func s =
              (Inl (err (calls (effects s) + MAX_RETRIES * ?N - 1)), s')
            \<and> length rs = ?N
            \<and> effects s' = effects s @
                 concat (map (\<lambda>r. concat (replicate (MAX_RETRIES - 1) [Call, Sleep RETRY_DELAY]) @
                                  Call # Rotate # r) rs)
            \<and> (\<forall>r\<in>set rs. r \<noteq> [] \<and> calls r = 0 \<and> backoffs r = []
                  \<and> (\<exists>ep\<in>set (rpc_endpoints s). live ep = Live \<and> last r = Probe ep))
            \<and> calls (effects s') = calls (effects s) + MAX_RETRIES * ?N
            \<and> rpc_endpoints s' = rpc_endpoints s
            \<and> current_rpc_index s' < ?N
            \<and> w3 s' = Some (rpc_endpoints s ! current_rpc_index s')
            \<and> live (rpc_endpoints s ! current_rpc_index s') = Live"
    if ti: "\<forall>h ep. is_connected h ep = live ep" and ex: "\<exists>ep\<in>set (rpc_endpoints s). live ep = Live"
  proof -
    have N: "0 < ?N" using idx by auto
    obtain rs s' where r:
      "retry_loop MAX_RETRIES RETRY_DELAY is_connected func (0 * MAX_RETRIES) None s =
        (Inl (case (if ?N = 0 then None
                    else Some (err (calls (effects s) + ?N * MAX_RETRIES - 1))) of
                Some e \<Rightarrow> e | None \<Rightarrow> Exception ''Max retries exceeded''), s')"
      "length rs = ?N"
      "effects s' = effects s @
           concat (map (\<lambda>r. concat (replicate (MAX_RETRIES - 1) [Call, Sleep RETRY_DELAY]) @
                            Call # Rotate # r) rs)"
      "rpc_endpoints s' = rpc_endpoints s"
      "current_rpc_index s' < ?N"
      "\<forall>r\<in>set rs. r \<noteq> [] \<and> calls r = 0 \<and> backoffs r = []
            \<and> (\<exists>ep\<in>set (rpc_endpoints s). live ep = Live \<and> last r = Probe ep)"
      "0 < ?N \<longrightarrow> w3 s' = Some (rpc_endpoints s ! current_rpc_index s')
                    \<and> live (rpc_endpoints s ! current_rpc_index s') = Live"
      using retry_loop_rounds [where func = func and err = err and is_connected = is_connected
          and live = live and k = MAX_RETRIES and d = RETRY_DELAY and q = 0 and m = ?N and s = s
          and last_exception = None, OF fails transient _ k _ idx ex] ti
      by auto
    have c: "calls (effects s') = calls (effects s) + MAX_RETRIES * ?N"
      unfolding r(3) calls_append using calls_rounds [of rs MAX_RETRIES RETRY_DELAY] r(6) r(2) k
      by simp
    have e: "execute_with_retry is_connected func s =
              (Inl (err (calls (effects s) + MAX_RETRIES * ?N - 1)), s')"
      using r(1) N by (simp add: execute_with_retry_def mult.commute)
    show ?thesis
      using e r(2) r(3) r(6) c r(4) r(5) r(7) N
      by (intro exI [of _ rs] exI [of _ s']) simp
  qed
  have none: "execute_with_retry is_connected func s =
           (Inl (ConnectionError ''Failed to connect to any RPC endpoint''),
            s\<lparr>current_rpc_index := (current_rpc_index s + 1) mod ?N,
              w3 := Some (rpc_endpoints s ! current_rpc_index s),
              effects := effects s @
                concat (replicate (MAX_RETRIES - 1) [Call, Sleep RETRY_DELAY]) @ [Call, Rotate] @
                concat (map (\<lambda>ep. [Probe ep, Rotate])
                          (rotate ((current_rpc_index s + 1) mod ?N) (rpc_endpoints s)))\<rparr>)"
    if "\<forall>h ep. is_connected h ep \<noteq> Live"
    unfolding execute_with_retry_def
    by (rule retry_loop_none_live [where err = err, OF fails transient _ k idx]) (simp add: that)
  have round: "\<forall>q last_exception t. q < length (rpc_endpoints t) \<longrightarrow>
         retry_loop MAX_RETRIES RETRY_DELAY is_connected func (q * MAX_RETRIES) last_exception t =
           (case connect is_connected
                   (perform Rotate
                      (t\<lparr>current_rpc_index := (current_rpc_index t + 1) mod length (rpc_endpoints t),
                         effects := effects t @
                           concat (replicate (MAX_RETRIES - 1) [Call, Sleep RETRY_DELAY]) @ [Call]\<rparr>)) of
              (Inl e', t2) \<Rightarrow> (Inl e', t2)
            | (Inr b, t2) \<Rightarrow>
                retry_loop MAX_RETRIES RETRY_DELAY is_connected func (q * MAX_RETRIES + MAX_RETRIES)
                  (Some (err (calls (effects t) + MAX_RETRIES - 1))) t2)"
    using retry_loop_round [where func = func and err = err and k = MAX_RETRIES, OF fails transient k refl]
    by blast
  have stop: "\<forall>e t. retry_loop MAX_RETRIES RETRY_DELAY is_connected func
                 (length (rpc_endpoints t) * MAX_RETRIES) (Some e) t = (Inl e, t)"
    by (intro allI, subst retry_loop.simps) (simp add: mult.commute)
  have unf: "execute_with_retry is_connected func s
         = retry_loop MAX_RETRIES RETRY_DELAY is_connected func 0 None s"
    by (simp add: execute_with_retry_def)
  show ?thesis
    using bound either live some none unf round stop by blast
qed


theorem execute_with_retry_always_transient_witness:
  "execute_with_retry (\<lambda>h ep. if ep = ''b'' then Dead else Live)
      (\<lambda>h. (Raises (Web3Exception ''timeout'') :: int outcome))
      \<lparr>rpc_endpoints = [''a'', ''b'', ''c''], current_rpc_index = 0, w3 = Some ''a'', effects = []\<rparr>
   = (Inl (Web3Exception ''timeout''),
      \<lparr>rpc_endpoints = [''a'', ''b'', ''c''], current_rpc_index = 2, w3 = Some ''c'',
       effects = [Call, Sleep 2, Call, Sleep 2, Call, Rotate, Probe ''b'', Rotate, Probe ''c'',
                  Call, Sleep 2, Call, Sleep 2, Call, Rotate, Probe ''a'',
                  Call, Sleep 2, Call, Sleep 2, Call, Rotate, Probe ''b'', Rotate, Probe ''c'']\<rparr>)
   \<and> calls [Call, Sleep 2, Call, Sleep 2, Call, Rotate, Probe ''b'', Rotate, Probe ''c'',
             Call, Sleep 2, Call, Sleep 2, Call, Rotate, Probe ''a'',
             Call, Sleep 2, Call, Sleep 2, Call, Rotate, Probe ''b'', Rotate, Probe ''c'']
       = MAX_RETRIES * 3
   \<and> execute_with_retry (\<lambda>h ep. Live) (\<lambda>h. (Raises (Web3Exception ''timeout'') :: int outcome))
      \<lparr>rpc_endpoints = [''a'', ''b''], current_rpc_index = 0, w3 = Some ''a'', effects = []\<rparr>
   = (Inl (Web3Exception ''timeout''),
      \<lparr>rpc_endpoints = [''a'', ''b''], current_rpc_index = 0, w3 = Some ''a'',
       effects = [Call, Sleep 2, Call, Sleep 2, Call, Rotate, Probe ''b'',
                  Call, Sleep 2, Call, Sleep 2, Call, Rotate, Probe ''a'']\<rparr>)"
proof -
  let ?f = "\<lambda>h::action list. (Raises (Web3Exception ''timeout'') :: int outcome)"
  let ?err = "\<lambda>i::nat. Web3Exception ''timeout''"
  let ?live = "\<lambda>ep. if ep = ''b'' then Dead else Live"
  let ?ic = "\<lambda>(h::action list) ep. if ep = ''b'' then Dead else Live"
  let ?s = "\<lparr>rpc_endpoints = [''a'', ''b'', ''c''], current_rpc_index = 0, w3 = Some ''a'',
             effects = []\<rparr>"
  let ?s2 = "\<lparr>rpc_endpoints = [''a'', ''b''], current_rpc_index = 0, w3 = Some ''a'',
              effects = []\<rparr>"
  have f: "\<And>h. ?f h = Raises (?err (calls h))"
    by simp
  have tr: "\<And>i. is_transient (?err i)"
    by simp
  have ix: "current_rpc_index ?s < length (rpc_endpoints ?s)"
    by simp
  have ix2: "current_rpc_index ?s2 < length (rpc_endpoints ?s2)"
    by simp
  have A: "(\<forall>h ep. ?ic h ep = ?live ep) \<and> (\<exists>ep\<in>set (rpc_endpoints ?s). ?live ep = Live)"
    by simp
  note t = execute_with_retry_always_transient [where func = ?f and err = ?err and s = ?s
      and is_connected = ?ic and live = ?live, OF f tr ix,
      THEN conjunct2, THEN conjunct2, THEN conjunct2, THEN conjunct1, THEN mp, OF A]
  have 1: "fst (execute_with_retry ?ic ?f ?s) = Inl (Web3Exception ''timeout'')
           \<and> calls (effects (snd (execute_with_retry ?ic ?f ?s))) = MAX_RETRIES * 3"
    using t by auto
  have v: "execute_with_retry ?ic ?f ?s
   = (Inl (Web3Exception ''timeout''),
      \<lparr>rpc_endpoints = [''a'', ''b'', ''c''], current_rpc_index = 2, w3 = Some ''c'',
       effects = [Call, Sleep 2, Call, Sleep 2, Call, Rotate, Probe ''b'', Rotate, Probe ''c'',
                  Call, Sleep 2, Call, Sleep 2, Call, Rotate, Probe ''a'',
                  Call, Sleep 2, Call, Sleep 2, Call, Rotate, Probe ''b'', Rotate, Probe ''c'']\<rparr>)"
    by (simp add: execute_with_retry_def retry_loop.simps MAX_RETRIES_def RETRY_DELAY_def
        connect_def rotate_rpc_def perform_def Let_def)
  note t2 = execute_with_retry_always_transient [where func = ?f and err = ?err and s = ?s2
      and is_connected = "\<lambda>h ep. Live" and live = "\<lambda>ep. Live", OF f tr ix2,
      THEN conjunct2, THEN conjunct2, THEN conjunct1]
  have 2: "execute_with_retry (\<lambda>h ep. Live) ?f ?s2
   = (Inl (Web3Exception ''timeout''),
      \<lparr>rpc_endpoints = [''a'', ''b''], current_rpc_index = 0, w3 = Some ''a'',
       effects = [Call, Sleep 2, Call, Sleep 2, Call, Rotate, Probe ''b'',
                  Call, Sleep 2, Call, Sleep 2, Call, Rotate, Probe ''a'']\<rparr>)"
    using t2 by (simp add: MAX_RETRIES_def RETRY_DELAY_def numeral_2_eq_2 upt_rec)
  show ?thesis
    using 1 v 2 by simp
qed

section \<open>Python's true division of integers\<close>

text \<open>
  \<open>a / b\<close> on two Python ints is a float: ZeroDivisionError for a zero divisor, otherwise
  the quotient rounded to the nearest IEEE 754 binary64 value, ties to the even
  significand, and OverflowError when that is out of range. A binary64 value is a
  rational number, and is kept as one here.
\<close>

text \<open>The number of binary digits of a positive integer.\<close>

function bitlen :: "int \<Rightarrow> int" where
  "bitlen n = (if n \<le> 0 then 0 else 1 + bitlen (n div 2))"
  by pat_completeness auto
termination
  by (relation "measure nat") auto

text \<open>For \<open>q > 0\<close>, the exponent \<open>e\<close> with \<open>2^e \<le> q < 2^(e+1)\<close>.\<close>

definition ilog2 :: "rat \<Rightarrow> int" where
  "ilog2 q = (if 1 \<le> q then bitlen \<lfloor>q\<rfloor> - 1 else - bitlen (\<lceil>1 / q\<rceil> - 1))"

definition round_half_even :: "rat \<Rightarrow> int" where
  "round_half_even q =
     (let f = \<lfloor>q\<rfloor>; d = q - of_int f
      in if d < 1 / 2 then f else if 1 / 2 < d then f + 1 else if even f then f else f + 1)"

text \<open>
  The spacing of binary64 values around \<open>q\<close>: 52 fraction bits below the leading bit,
  and never finer than \<open>2^-1074\<close> (subnormal range).
\<close>

definition ulp :: "rat \<Rightarrow> rat" where
  "ulp q = 2 powi (max (ilog2 \<bar>q\<bar>) (- 1022) - 52)"

definition round_binary64 :: "rat \<Rightarrow> rat" where
  "round_binary64 q = (if q = 0 then 0 else of_int (round_half_even (q / ulp q)) * ulp q)"

definition true_div :: "int \<Rightarrow> int \<Rightarrow> exn + rat" where
  "true_div a b =
     (if b = 0 then Inl ZeroDivisionError
      else let r = round_binary64 (of_int a / of_int b)
           in if 2 ^ 1024 \<le> \<bar>r\<bar> then Inl OverflowError else Inr r)"


declare bitlen.simps [simp del]

lemma bitlen_bounds:
  "0 < n \<Longrightarrow> 0 < bitlen n \<and> 2 ^ nat (bitlen n - 1) \<le> n \<and> n < 2 ^ nat (bitlen n)"
proof (induction n rule: bitlen.induct)
  case (1 n)
  show ?case
  proof (cases "n = 1")
    case True
    have "bitlen 1 = 1" by (simp add: bitlen.simps [of 1] bitlen.simps [of 0])
    then show ?thesis using True by simp
  next
    case False
    then have h: "0 < n div 2" using "1.prems" by simp
    let ?b = "bitlen (n div 2)"
    have IH: "0 < ?b" "2 ^ nat (?b - 1) \<le> n div 2" "n div 2 < 2 ^ nat ?b"
      using "1.IH" "1.prems" h by simp_all
    have bn: "bitlen n = 1 + ?b" using "1.prems" by (simp add: bitlen.simps [of n])
    have p: "(2::int) ^ nat ?b = 2 * 2 ^ nat (?b - 1)"
      using IH(1) by (metis Suc_nat_eq_nat_zadd1 add.commute diff_add_cancel diff_ge_0_iff_ge
          int_one_le_iff_zero_less power_Suc)
    have d: "2 * (n div 2) \<le> n" "n < 2 * (n div 2) + 2" by presburger+
    have "(2::int) ^ nat (bitlen n - 1) \<le> n" using bn p IH(2) d(1) by simp
    moreover have "n < 2 ^ nat (bitlen n)"
    proof -
      have "nat (1 + ?b) = Suc (nat ?b)" using IH(1) by simp
      then have "(2::int) ^ nat (bitlen n) = 2 * 2 ^ nat ?b" using bn by simp
      then show ?thesis using IH(3) d(2) by simp
    qed
    ultimately show ?thesis using bn IH(1) by simp
  qed
qed

lemma ilog2_le:
  assumes "0 < q"
  shows "2 powi (ilog2 q) \<le> q"
proof (cases "1 \<le> q")
  case True
  let ?n = "\<lfloor>q\<rfloor>"
  have n: "0 < ?n" using True by simp
  have b: "0 < bitlen ?n" "2 ^ nat (bitlen ?n - 1) \<le> ?n"
    using bitlen_bounds [OF n] by simp_all
  have "(2::rat) powi (bitlen ?n - 1) = 2 ^ nat (bitlen ?n - 1)"
    using b(1) by (simp add: power_int_def)
  also have "\<dots> = of_int (2 ^ nat (bitlen ?n - 1))" by simp
  also have "\<dots> \<le> of_int ?n" using b(2) by (simp only: of_int_le_iff)
  also have "\<dots> \<le> q" by simp
  finally show ?thesis using True by (simp add: ilog2_def)
next
  case False
  let ?m = "\<lceil>1 / q\<rceil> - 1"
  have "1 < 1 / q" using False assms by simp
  then have "1 < \<lceil>1 / q\<rceil>" by (simp add: less_ceiling_iff)
  then have m: "0 < ?m" by simp
  have b: "0 < bitlen ?m" "?m < 2 ^ nat (bitlen ?m)"
    using bitlen_bounds [OF m] by simp_all
  have "\<lceil>1 / q\<rceil> \<le> 2 ^ nat (bitlen ?m)" using b(2) by simp
  then have "of_int \<lceil>1 / q\<rceil> \<le> (of_int (2 ^ nat (bitlen ?m)) :: rat)"
    by (simp only: of_int_le_iff)
  then have "1 / q \<le> of_int (2 ^ nat (bitlen ?m))"
    using le_of_int_ceiling [of "1 / q"] by (rule order_trans [rotated])
  then have "1 / q \<le> 2 ^ nat (bitlen ?m)"
    by simp
  then have "1 \<le> 2 ^ nat (bitlen ?m) * q"
    using assms by (simp add: field_simps)
  then have "1 / 2 ^ nat (bitlen ?m) \<le> q"
    by (simp add: field_simps)
  moreover have "(2::rat) powi (- bitlen ?m) = 1 / 2 ^ nat (bitlen ?m)"
    using b(1) by (simp add: power_int_def field_simps)
  ultimately show ?thesis using False by (simp add: ilog2_def)
qed

lemma round_half_even_error: "\<bar>of_int (round_half_even x) - x\<bar> \<le> 1 / 2"
proof -
  have "of_int \<lfloor>x\<rfloor> \<le> x" "x < of_int \<lfloor>x\<rfloor> + 1" by linarith+
  then show ?thesis
    by (auto simp: round_half_even_def Let_def)
qed

lemma ulp_pos: "0 < ulp q"
  by (simp add: ulp_def)

lemma ulp_le:
  assumes "2 powi (- 1022) \<le> \<bar>q\<bar>"
  shows "ulp q \<le> \<bar>q\<bar> / 2 ^ 52"
proof -
  have pos: "0 < \<bar>q\<bar>" using assms zero_less_power_int [of "2::rat" "- 1022"] by linarith
  let ?E = "max (ilog2 \<bar>q\<bar>) (- 1022)"
  have "(2::rat) powi ?E \<le> \<bar>q\<bar>"
    using ilog2_le [OF pos] assms by (simp add: max_def)
  moreover have "ulp q = 2 powi ?E / 2 ^ 52"
    by (simp add: ulp_def power_int_diff)
  ultimately show ?thesis by (simp add: divide_right_mono)
qed

lemma round_binary64_error:
  assumes "2 powi (- 1022) \<le> \<bar>q\<bar>"
  shows "\<bar>round_binary64 q - q\<bar> \<le> \<bar>q\<bar> / 2 ^ 53"
proof -
  let ?u = "ulp q"
  have u: "0 < ?u" by (rule ulp_pos)
  have q0: "q \<noteq> 0" using assms zero_less_power_int [of "2::rat" "- 1022"] by auto
  have "round_binary64 q - q = (of_int (round_half_even (q / ?u)) - q / ?u) * ?u"
    using u q0 by (simp add: round_binary64_def field_simps)
  then have "\<bar>round_binary64 q - q\<bar> = \<bar>of_int (round_half_even (q / ?u)) - q / ?u\<bar> * ?u"
    using u by (simp add: abs_mult)
  also have "\<dots> \<le> 1 / 2 * ?u"
    using round_half_even_error [of "q / ?u"] u by (intro mult_right_mono) simp_all
  also have "\<dots> \<le> 1 / 2 * (\<bar>q\<bar> / 2 ^ 52)"
    using ulp_le [OF assms] by simp
  also have "\<dots> = \<bar>q\<bar> / 2 ^ 53" by simp
  finally show ?thesis .
qed

section \<open>Event fetcher (rotation/event\_fetcher.py)\<close>

text \<open>
  A log entry as web3 hands it over: \<open>event['args']\<close>, \<open>event['blockNumber']\<close>,
  \<open>event['transactionHash']\<close> (kept as the string its \<open>.hex()\<close> gives). \<open>None\<close> is a
  missing key, on which the subscript raises KeyError.
\<close>

record event_args =
  args_reserve :: "string option"
  args_user :: "string option"
  args_onBehalfOf :: "string option"
  args_amount :: "int option"
  args_referralCode :: "int option"

record raw_event =
  args :: "event_args option"
  blockNumber :: "int option"
  transactionHash :: "string option"

text \<open>
  The dictionary \<open>_parse_supply_event\<close> builds. \<open>amount_usdc\<close> is a float, kept as the
  rational it is; \<open>timestamp\<close> is the key \<open>enrich_events_with_timestamps\<close> adds,
  \<open>None\<close> while the dictionary has no such key.
\<close>

record supply_event =
  block_number :: int
  transaction_hash :: string
  reserve :: string
  user :: string
  on_behalf_of :: string
  amount_raw :: int
  amount_usdc :: rat
  referral_code :: int
  timestamp :: "int option"

text \<open>
  \<open>_parse_supply_event\<close>: any exception inside the \<open>try\<close> (a missing key, an overflow of
  the division) is caught and the result is \<open>None\<close>.
\<close>

definition parse_supply_event :: "raw_event \<Rightarrow> supply_event option" where
  "parse_supply_event event =
     (case args event of
        None \<Rightarrow> None
      | Some a \<Rightarrow>
          (case args_amount a of
             None \<Rightarrow> None
           | Some raw \<Rightarrow>
               (case true_div raw (10 ^ USDC_DECIMALS) of
                  Inl e \<Rightarrow> None
                | Inr usdc \<Rightarrow>
                    (case (blockNumber event, transactionHash event,
                           args_reserve a, args_user a, args_onBehalfOf a) of
                       (Some bn, Some tx, Some r, Some u, Some obo) \<Rightarrow>
                         Some \<lparr>block_number = bn, transaction_hash = tx, reserve = r, user = u,
                               on_behalf_of = obo, amount_raw = raw, amount_usdc = usdc,
                               referral_code = (case args_referralCode a of Some c \<Rightarrow> c | None \<Rightarrow> 0),
                               timestamp = None\<rparr>
                     | _ \<Rightarrow> None))))"

lemma parse_supply_event_Some:
  assumes "parse_supply_event event = Some r"
  shows "\<exists>a. args event = Some a \<and> args_amount a = Some (amount_raw r)
           \<and> true_div (amount_raw r) (10 ^ USDC_DECIMALS) = Inr (amount_usdc r)
           \<and> blockNumber event = Some (block_number r)
           \<and> args_onBehalfOf a = Some (on_behalf_of r)
           \<and> timestamp r = None"
  using assms
  by (auto simp: parse_supply_event_def split: option.splits sum.splits)

lemma tiny_le_micro: "(2::rat) powi (- 1022) \<le> 1 / 10 ^ 6"
proof -
  have "(10::rat) ^ 6 \<le> 2 ^ 20" by simp
  also have "\<dots> \<le> 2 ^ 1022" by (rule power_increasing) simp_all
  finally have "1 / (2::rat) ^ 1022 \<le> 1 / 10 ^ 6"
    by (intro divide_left_mono) simp_all
  then show ?thesis by (simp add: power_int_def field_simps)
qed

lemma true_div_micro:
  assumes "true_div raw (10 ^ 6) = Inr v"
  shows "v = round_binary64 (of_int raw / 10 ^ 6)"
    and "\<bar>v - of_int raw / 10 ^ 6\<bar> \<le> \<bar>of_int raw / 10 ^ 6\<bar> / 2 ^ 53"
proof -
  show v: "v = round_binary64 (of_int raw / 10 ^ 6)"
    using assms by (simp add: true_div_def Let_def split: if_splits)
  show "\<bar>v - of_int raw / 10 ^ 6\<bar> \<le> \<bar>of_int raw / 10 ^ 6\<bar> / 2 ^ 53"
  proof (cases "raw = 0")
    case True
    then show ?thesis using v by (simp add: round_binary64_def)
  next
    case False
    then have "1 \<le> \<bar>raw\<bar>" by simp
    then have "(1::rat) \<le> \<bar>of_int raw\<bar>"
      by (metis of_int_1 of_int_abs of_int_le_iff)
    then have "1 / 10 ^ 6 \<le> \<bar>of_int raw / 10 ^ 6 :: rat\<bar>"
      by (simp add: divide_right_mono)
    then have "2 powi (- 1022) \<le> \<bar>of_int raw / 10 ^ 6 :: rat\<bar>"
      using tiny_le_micro by (rule order_trans [rotated])
    then show ?thesis unfolding v by (rule round_binary64_error)
  qed
qed


text \<open>
  C4 as stated fails: \<open>1 / 10 ** 6\<close> is the binary64 value
  \<open>4722366482869645 / 2^72\<close>, which is not the rational \<open>1 / 10^6\<close> (no power of two
  is a multiple of \<open>5^6\<close>).
\<close>

theorem parse_amount_not_exact:
  "map_option amount_usdc
     (parse_supply_event
        \<lparr>args = Some \<lparr>args_reserve = Some ''usdc'', args_user = Some ''u'',
                      args_onBehalfOf = Some ''u'', args_amount = Some 1,
                      args_referralCode = Some 0\<rparr>,
         blockNumber = Some 7, transactionHash = Some ''0xab''\<rparr>)
   = Some (4722366482869645 / 2 ^ 72)
   \<and> (4722366482869645 / 2 ^ 72 :: rat) \<noteq> 1 / 10 ^ 6"
proof -
  have "true_div 1 (10 ^ 6) = Inr (4722366482869645 / 2 ^ 72)"
    by code_simp
  then show ?thesis
    by (simp add: parse_supply_event_def USDC_DECIMALS_def)
qed

text \<open>
  C4, amended. The decimal amount of a decoded record is what Python's \<open>/\<close> gives for
  the record's raw amount and \<open>10 ** 6\<close>: the quotient rounded to the nearest binary64
  value. It depends on the raw amount only, the raw amount is the event's, and it is
  within a relative error of \<open>2^-53\<close> of the exact quotient.
\<close>

theorem parse_amount_usdc:
  assumes "parse_supply_event event = Some r"
  shows "map_option args_amount (args event) = Some (Some (amount_raw r))
    \<and> true_div (amount_raw r) (10 ^ USDC_DECIMALS) = Inr (amount_usdc r)
    \<and> amount_usdc r = round_binary64 (of_int (amount_raw r) / 10 ^ 6)
    \<and> \<bar>amount_usdc r - of_int (amount_raw r) / 10 ^ 6\<bar>
        \<le> \<bar>of_int (amount_raw r) / 10 ^ 6\<bar> / 2 ^ 53"
proof -
  obtain a where a: "args event = Some a" "args_amount a = Some (amount_raw r)"
    and d: "true_div (amount_raw r) (10 ^ USDC_DECIMALS) = Inr (amount_usdc r)"
    using parse_supply_event_Some [OF assms] by blast
  have d6: "true_div (amount_raw r) (10 ^ 6) = Inr (amount_usdc r)"
    using d by (simp add: USDC_DECIMALS_def)
  show ?thesis
    using a d true_div_micro [OF d6] by simp
qed

theorem parse_amount_usdc_witness:
  "parse_supply_event
     \<lparr>args = Some \<lparr>args_reserve = Some ''usdc'', args_user = Some ''u'',
                   args_onBehalfOf = Some ''v'', args_amount = Some 1500000,
                   args_referralCode = None\<rparr>,
      blockNumber = Some 7, transactionHash = Some ''0xab''\<rparr>
   = Some \<lparr>block_number = 7, transaction_hash = ''0xab'', reserve = ''usdc'', user = ''u'',
           on_behalf_of = ''v'', amount_raw = 1500000, amount_usdc = 3 / 2,
           referral_code = 0, timestamp = None\<rparr>
   \<and> true_div 1500000 (10 ^ USDC_DECIMALS) = Inr (3 / 2)
   \<and> \<bar>(3 / 2 :: rat) - of_int 1500000 / 10 ^ 6\<bar> \<le> \<bar>of_int 1500000 / 10 ^ 6\<bar> / 2 ^ 53"
proof -
  have t: "true_div 1500000 (10 ^ 6) = Inr (3 / 2)"
    by code_simp
  have p: "parse_supply_event
     \<lparr>args = Some \<lparr>args_reserve = Some ''usdc'', args_user = Some ''u'',
                   args_onBehalfOf = Some ''v'', args_amount = Some 1500000,
                   args_referralCode = None\<rparr>,
      blockNumber = Some 7, transactionHash = Some ''0xab''\<rparr>
   = Some \<lparr>block_number = 7, transaction_hash = ''0xab'', reserve = ''usdc'', user = ''u'',
           on_behalf_of = ''v'', amount_raw = 1500000, amount_usdc = 3 / 2,
           referral_code = 0, timestamp = None\<rparr>"
    using t by (simp add: parse_supply_event_def USDC_DECIMALS_def)
  show ?thesis
    using parse_amount_usdc [OF p] p by simp
qed

text \<open>
  What a log query over a block window gives: the entries of
  \<open>create_filter(...).get_all_entries()\<close>, or an exception. Like every answer of the
  outside world it may depend on what was done before.
\<close>

datatype batch = Entries "raw_event list" | Fails exn

type_synonym log_source = "action list \<Rightarrow> int \<Rightarrow> int \<Rightarrow> batch"

definition max_attempts :: nat where
  "max_attempts = 5"

text \<open>
  The \<open>while\<close> loop of \<open>fetch_supply_events\<close> with its variables \<open>all_events\<close>,
  \<open>from_block\<close> and \<open>attempt\<close>. A window is moved before it is queried, so a failed
  window is not queried again. \<open>if events:\<close> and \<open>if parsed_event:\<close> are Python's
  truth tests: a non-empty list, a dictionary with keys.
\<close>

function fetch_loop ::
  "log_source \<Rightarrow> int \<Rightarrow> supply_event list \<Rightarrow> int \<Rightarrow> nat \<Rightarrow> manager \<Rightarrow> supply_event list \<times> manager" where
  "fetch_loop get_logs target_count all_events from_block attempt s =
     (if int (length all_events) < target_count \<and> 0 < from_block \<and> attempt < max_attempts then
        (let to_block = from_block;
             from_block' = max 0 (to_block - BLOCKS_PER_BATCH);
             s1 = perform (Query from_block' to_block) s
         in case get_logs (effects s) from_block' to_block of
              Entries events \<Rightarrow>
                (let all_events' =
                       (if events \<noteq> [] then all_events @ List.map_filter parse_supply_event events
                        else all_events)
                 in if target_count \<le> int (length all_events') then (all_events', s1)
                    else fetch_loop get_logs target_count all_events' from_block' attempt s1)
            | Fails e \<Rightarrow>
                fetch_loop get_logs target_count all_events from_block' (attempt + 1)
                  (perform (Sleep (2 ^ (attempt + 1))) s1))
      else (all_events, s))"
  by pat_completeness auto
termination
  by (relation "measure (\<lambda>(get_logs, target_count, all_events, from_block, attempt, s). nat from_block)")
    (auto simp: BLOCKS_PER_BATCH_def)

declare fetch_loop.simps [simp del]

text \<open>Python's \<open>xs[:n]\<close>; a negative \<open>n\<close> counts from the end.\<close>

definition slice_to :: "int \<Rightarrow> 'a list \<Rightarrow> 'a list" where
  "slice_to n xs = (if 0 \<le> n then take (nat n) xs else take (length xs - nat (- n)) xs)"

text \<open>
  \<open>fetch_supply_events\<close>: the chain head through \<open>execute_with_retry\<close> (whose exception
  leaves the function), the loop, the slice.
\<close>

definition fetch_supply_events ::
  "liveness \<Rightarrow> int operation \<Rightarrow> log_source \<Rightarrow> int \<Rightarrow> manager \<Rightarrow> (exn + supply_event list) \<times> manager" where
  "fetch_supply_events is_connected get_block_number get_logs target_count s =
     (case execute_with_retry is_connected get_block_number s of
        (Inl e, s1) \<Rightarrow> (Inl e, s1)
      | (Inr current_block, s1) \<Rightarrow>
          (case fetch_loop get_logs target_count [] current_block 0 s1 of
             (all_events, s2) \<Rightarrow> (Inr (slice_to target_count all_events), s2)))"

lemma fetch_loop_stop:
  "\<not> (int (length all_events) < target_count \<and> 0 < from_block \<and> attempt < max_attempts) \<Longrightarrow>
   fetch_loop get_logs target_count all_events from_block attempt s = (all_events, s)"
  by (subst fetch_loop.simps) auto

lemma fetch_loop_backoffs:
  "length (backoffs (effects (snd (fetch_loop get_logs target_count all_events from_block attempt s))))
     \<le> length (backoffs (effects s)) + (max_attempts - attempt)"
proof (induction get_logs target_count all_events from_block attempt s rule: fetch_loop.induct)
  case (1 get_logs target_count all_events from_block attempt s)
  let ?guard = "int (length all_events) < target_count \<and> 0 < from_block \<and> attempt < max_attempts"
  let ?fb = "max 0 (from_block - BLOCKS_PER_BATCH)"
  let ?s1 = "perform (Query ?fb from_block) s"
  show ?case
  proof (cases ?guard)
    case False
    then show ?thesis by (simp add: fetch_loop_stop)
  next
    case guard: True
    show ?thesis
    proof (cases "get_logs (effects s) ?fb from_block")
      case (Entries events)
      let ?all = "if events \<noteq> [] then all_events @ List.map_filter parse_supply_event events
                  else all_events"
      show ?thesis
      proof (cases "target_count \<le> int (length ?all)")
        case True
        then have "fetch_loop get_logs target_count all_events from_block attempt s = (?all, ?s1)"
          using guard Entries by (subst fetch_loop.simps) (simp add: Let_def)
        then show ?thesis by (simp add: perform_def)
      next
        case False
        then have step: "fetch_loop get_logs target_count all_events from_block attempt s =
            fetch_loop get_logs target_count ?all ?fb attempt ?s1"
          using guard Entries by (subst fetch_loop.simps) (simp add: Let_def)
        have "length (backoffs (effects (snd (fetch_loop get_logs target_count ?all ?fb attempt ?s1))))
               \<le> length (backoffs (effects ?s1)) + (max_attempts - attempt)"
          using "1.IH"(1) [OF guard refl refl refl Entries refl False] .
        then show ?thesis unfolding step by (simp add: perform_def)
      qed
    next
      case (Fails e)
      let ?s2 = "perform (Sleep (2 ^ (attempt + 1))) ?s1"
      have step: "fetch_loop get_logs target_count all_events from_block attempt s =
          fetch_loop get_logs target_count all_events ?fb (attempt + 1) ?s2"
        using guard Fails by (subst fetch_loop.simps) (simp add: Let_def)
      have ih: "length (backoffs (effects (snd (fetch_loop get_logs target_count all_events ?fb (attempt + 1) ?s2))))
               \<le> length (backoffs (effects ?s2)) + (max_attempts - (attempt + 1))"
        using "1.IH"(2) [OF guard refl refl refl Fails] .
      have e: "length (backoffs (effects ?s2)) = Suc (length (backoffs (effects s)))"
        by (simp add: perform_def)
      have "Suc (length (backoffs (effects s))) + (max_attempts - (attempt + 1))
              = length (backoffs (effects s)) + (max_attempts - attempt)"
        using guard by arith
      then show ?thesis unfolding step using ih e by (simp only:)
    qed
  qed
qed

lemma length_slice_to: "int (length (slice_to n xs)) \<le> max 0 (int (length xs) + min 0 n)"
  by (auto simp: slice_to_def)

lemma length_slice_to_le: "0 \<le> n \<Longrightarrow> int (length (slice_to n xs)) \<le> n"
  by (auto simp: slice_to_def)


lemma fetch_loop_first_window:
  assumes "0 < target_count" and "0 < current_block"
    and "get_logs (effects s) (max 0 (current_block - BLOCKS_PER_BATCH)) current_block = Entries events"
    and "target_count \<le> int (length (List.map_filter parse_supply_event events))"
  shows "fetch_loop get_logs target_count [] current_block 0 s =
    (List.map_filter parse_supply_event events,
     perform (Query (max 0 (current_block - BLOCKS_PER_BATCH)) current_block) s)"
proof -
  have "events \<noteq> []" using assms(1,4) by (auto simp: List.map_filter_simps)
  then show ?thesis
    using assms by (subst fetch_loop.simps) (simp add: Let_def max_attempts_def)
qed

lemma execute_with_retry_returns:
  assumes "func (effects s) = Returns v" and "rpc_endpoints s \<noteq> []"
  shows "execute_with_retry is_connected func s = (Inr v, perform Call s)"
  unfolding execute_with_retry_def
  using assms by (subst retry_loop.simps) (simp add: MAX_RETRIES_def)

text \<open>
  The failed batch queries among the actions \<open>new\<close> performed after the history \<open>h\<close>:
  the log queries to which the log source, asked at that moment, answers with an
  exception.
\<close>

fun failed_queries :: "log_source \<Rightarrow> action list \<Rightarrow> action list \<Rightarrow> nat" where
  "failed_queries get_logs h [] = 0"
| "failed_queries get_logs h (Query f t # new) =
     (case get_logs h f t of Fails e \<Rightarrow> 1 | Entries events \<Rightarrow> 0)
       + failed_queries get_logs (h @ [Query f t]) new"
| "failed_queries get_logs h (a # new) = failed_queries get_logs (h @ [a]) new"

lemma map_pow_upt_Suc:
  "(2::int) ^ (a + 1) # map (\<lambda>i. 2 ^ (a + 1 + 1 + i)) [0..<n] = map (\<lambda>i. 2 ^ (a + 1 + i)) [0..<Suc n]"
  by (simp add: map_upt_Suc del: upt_Suc)

lemma fetch_loop_failures:
  "\<exists>new. effects (snd (fetch_loop get_logs target_count all_events from_block attempt s))
            = effects s @ new
     \<and> failed_queries get_logs (effects s) new = length (backoffs new)
     \<and> backoffs new = map (\<lambda>i. 2 ^ (attempt + 1 + i)) [0..<length (backoffs new)]
     \<and> (attempt \<le> max_attempts \<longrightarrow> attempt + length (backoffs new) \<le> max_attempts)
     \<and> (attempt < max_attempts \<and> attempt + length (backoffs new) = max_attempts \<longrightarrow>
          new \<noteq> [] \<and> last new = Sleep (2 ^ max_attempts))
     \<and> (\<forall>(f, t)\<in>set (windows new). 0 < t \<and> f = max 0 (t - BLOCKS_PER_BATCH))"
proof (induction get_logs target_count all_events from_block attempt s rule: fetch_loop.induct)
  case (1 get_logs target_count all_events from_block attempt s)
  let ?guard = "int (length all_events) < target_count \<and> 0 < from_block \<and> attempt < max_attempts"
  let ?fb = "max 0 (from_block - BLOCKS_PER_BATCH)"
  let ?s1 = "perform (Query ?fb from_block) s"
  show ?case
  proof (cases ?guard)
    case False
    then have "fetch_loop get_logs target_count all_events from_block attempt s = (all_events, s)"
      by (rule fetch_loop_stop)
    then show ?thesis
      by (intro exI [of _ "[]"]) simp
  next
    case guard: True
    show ?thesis
    proof (cases "get_logs (effects s) ?fb from_block")
      case (Entries events)
      let ?all = "if events \<noteq> [] then all_events @ List.map_filter parse_supply_event events
                  else all_events"
      show ?thesis
      proof (cases "target_count \<le> int (length ?all)")
        case True
        then have "fetch_loop get_logs target_count all_events from_block attempt s = (?all, ?s1)"
          using guard Entries by (subst fetch_loop.simps) (simp add: Let_def)
        then show ?thesis
          using guard Entries by (intro exI [of _ "[Query ?fb from_block]"]) (simp add: perform_def)
      next
        case False
        then have step: "fetch_loop get_logs target_count all_events from_block attempt s =
            fetch_loop get_logs target_count ?all ?fb attempt ?s1"
          using guard Entries by (subst fetch_loop.simps) (simp add: Let_def)
        obtain new where new:
          "effects (snd (fetch_loop get_logs target_count ?all ?fb attempt ?s1)) = effects ?s1 @ new"
          "failed_queries get_logs (effects ?s1) new = length (backoffs new)"
          "backoffs new = map (\<lambda>i. 2 ^ (attempt + 1 + i)) [0..<length (backoffs new)]"
          "attempt \<le> max_attempts \<longrightarrow> attempt + length (backoffs new) \<le> max_attempts"
          "attempt < max_attempts \<and> attempt + length (backoffs new) = max_attempts \<longrightarrow>
             new \<noteq> [] \<and> last new = Sleep (2 ^ max_attempts)"
          "\<forall>(f, t)\<in>set (windows new). 0 < t \<and> f = max 0 (t - BLOCKS_PER_BATCH)"
          using "1.IH"(1) [OF guard refl refl refl Entries refl False] by blast
        have e1: "effects ?s1 = effects s @ [Query ?fb from_block]"
          by (simp add: perform_def)
        show ?thesis
          unfolding step
          using new guard Entries unfolding e1
          by (intro exI [of _ "Query ?fb from_block # new"]) simp
      qed
    next
      case (Fails e)
      let ?d = "2 ^ (attempt + 1) :: int"
      let ?s2 = "perform (Sleep ?d) ?s1"
      have step: "fetch_loop get_logs target_count all_events from_block attempt s =
          fetch_loop get_logs target_count all_events ?fb (attempt + 1) ?s2"
        using guard Fails by (subst fetch_loop.simps) (simp add: Let_def)
      have e2: "effects ?s2 = (effects s @ [Query ?fb from_block]) @ [Sleep ?d]"
        by (simp add: perform_def)
      show ?thesis
      proof (cases "attempt + 1 = max_attempts")
        case True
        then have stop: "fetch_loop get_logs target_count all_events ?fb (attempt + 1) ?s2
            = (all_events, ?s2)"
          by (intro fetch_loop_stop) simp
        have ef: "effects (snd (fetch_loop get_logs target_count all_events ?fb (attempt + 1) ?s2))
             = effects s @ [Query ?fb from_block, Sleep ?d]"
          by (simp only: stop snd_conv e2 append_assoc append.simps)
        have f: "failed_queries get_logs (effects s) [Query ?fb from_block, Sleep ?d]
            = length (backoffs [Query ?fb from_block, Sleep ?d])"
          using Fails by simp
        have b: "backoffs [Query ?fb from_block, Sleep ?d]
            = map (\<lambda>i. 2 ^ (attempt + 1 + i)) [0..<length (backoffs [Query ?fb from_block, Sleep ?d])]"
          by simp
        have c: "attempt + length (backoffs [Query ?fb from_block, Sleep ?d]) \<le> max_attempts"
          using True by simp
        have l: "[Query ?fb from_block, Sleep ?d] \<noteq> []
              \<and> last [Query ?fb from_block, Sleep ?d] = Sleep (2 ^ max_attempts)"
          unfolding True [symmetric] by simp
        have w: "\<forall>(f, t)\<in>set (windows [Query ?fb from_block, Sleep ?d]).
                   0 < t \<and> f = max 0 (t - BLOCKS_PER_BATCH)"
          using guard by simp
        show ?thesis
          unfolding step
          using ef f b c l w
          by (intro exI [of _ "[Query ?fb from_block, Sleep ?d]"]) blast
      next
        case False
        then have lt: "attempt + 1 < max_attempts"
          using guard by simp
        obtain new where new:
          "effects (snd (fetch_loop get_logs target_count all_events ?fb (attempt + 1) ?s2))
             = effects ?s2 @ new"
          "failed_queries get_logs (effects ?s2) new = length (backoffs new)"
          "backoffs new = map (\<lambda>i. 2 ^ (attempt + 1 + 1 + i)) [0..<length (backoffs new)]"
          "attempt + 1 \<le> max_attempts \<longrightarrow> attempt + 1 + length (backoffs new) \<le> max_attempts"
          "attempt + 1 < max_attempts \<and> attempt + 1 + length (backoffs new) = max_attempts \<longrightarrow>
             new \<noteq> [] \<and> last new = Sleep (2 ^ max_attempts)"
          "\<forall>(f, t)\<in>set (windows new). 0 < t \<and> f = max 0 (t - BLOCKS_PER_BATCH)"
          using "1.IH"(2) [OF guard refl refl refl Fails] by blast
        have b: "backoffs (Query ?fb from_block # Sleep ?d # new)
            = map (\<lambda>i. 2 ^ (attempt + 1 + i)) [0..<length (backoffs (Query ?fb from_block # Sleep ?d # new))]"
          using new(3) map_pow_upt_Suc [of attempt "length (backoffs new)"] by simp
        have f: "failed_queries get_logs (effects s) (Query ?fb from_block # Sleep ?d # new)
            = length (backoffs (Query ?fb from_block # Sleep ?d # new))"
          using new(2) Fails unfolding e2 by simp
        have l: "attempt + length (backoffs (Query ?fb from_block # Sleep ?d # new)) = max_attempts
            \<longrightarrow> Query ?fb from_block # Sleep ?d # new \<noteq> []
              \<and> last (Query ?fb from_block # Sleep ?d # new) = Sleep (2 ^ max_attempts)"
          using new(5) lt by simp
        have c: "attempt + length (backoffs (Query ?fb from_block # Sleep ?d # new)) \<le> max_attempts"
          using new(4) lt by simp
        have w: "\<forall>(f, t)\<in>set (windows (Query ?fb from_block # Sleep ?d # new)).
                   0 < t \<and> f = max 0 (t - BLOCKS_PER_BATCH)"
          using new(6) guard by simp
        have ef: "effects (snd (fetch_loop get_logs target_count all_events ?fb (attempt + 1) ?s2))
             = effects s @ (Query ?fb from_block # Sleep ?d # new)"
          using new(1) unfolding e2 by simp
        show ?thesis
          unfolding step
          using ef f b c l w
          by (intro exI [of _ "Query ?fb from_block # Sleep ?d # new"]) blast
      qed
    qed
  qed
qed


text \<open>
  C3. The loop body runs (a window is queried) only while fewer than \<open>target_count\<close>
  records are accumulated, \<open>from_block\<close> is above 0 and fewer than 5 batch attempts have
  failed: otherwise the loop returns what it has, with no effect. Every window queried
  has its upper bound above block 0. Every failed batch query is counted and followed by
  a backoff: the failed queries of a run are as many as its backoffs, which last
  \<open>2^(attempt+1)\<close>, \<open>2^(attempt+2)\<close>, ...; with the failures counted before they never
  exceed 5, and after the fifth failure and its backoff nothing more is done. What
  \<open>fetch_supply_events\<close> returns is the list the loop accumulated from the chain head
  with no failure counted, cut by \<open>[:target_count]\<close>, so it has at most \<open>target_count\<close>
  records (none for a negative \<open>target_count\<close>). When the first window gives at least
  \<open>target_count\<close> decodable events, the result is the first \<open>target_count\<close> of them and
  that window is the only one queried.
\<close>

theorem fetch_supply_events_bounded:
  "(\<not> (int (length all_events) < target_count \<and> 0 < from_block \<and> attempt < max_attempts) \<longrightarrow>
      fetch_loop get_logs target_count all_events from_block attempt s = (all_events, s))
   \<and> (\<exists>new. effects (snd (fetch_loop get_logs target_count all_events from_block attempt s))
                = effects s @ new
         \<and> failed_queries get_logs (effects s) new = length (backoffs new)
         \<and> backoffs new = map (\<lambda>i. 2 ^ (attempt + 1 + i)) [0..<length (backoffs new)]
         \<and> (attempt \<le> max_attempts \<longrightarrow>
              attempt + failed_queries get_logs (effects s) new \<le> max_attempts)
         \<and> (attempt < max_attempts \<and>
              attempt + failed_queries get_logs (effects s) new = max_attempts \<longrightarrow>
              new \<noteq> [] \<and> last new = Sleep (2 ^ max_attempts))
         \<and> (\<forall>(f, t)\<in>set (windows new). 0 < t \<and> f = max 0 (t - BLOCKS_PER_BATCH)))
   \<and> length (backoffs (effects (snd (fetch_loop get_logs target_count all_events from_block attempt s))))
        \<le> length (backoffs (effects s)) + (max_attempts - attempt)
   \<and> (case fetch_supply_events is_connected get_block_number get_logs target_count s of
         (Inl e, s') \<Rightarrow> fst (execute_with_retry is_connected get_block_number s) = Inl e
       | (Inr result, s') \<Rightarrow> int (length result) \<le> max 0 target_count)
   \<and> (\<forall>head s1. execute_with_retry is_connected get_block_number s = (Inr head, s1) \<longrightarrow>
         fetch_supply_events is_connected get_block_number get_logs target_count s =
           (Inr (slice_to target_count (fst (fetch_loop get_logs target_count [] head 0 s1))),
            snd (fetch_loop get_logs target_count [] head 0 s1)))
   \<and> (rpc_endpoints s \<noteq> [] \<and> get_block_number (effects s) = Returns current_block \<and>
       0 < current_block \<and> 0 < target_count \<and>
       get_logs (effects s @ [Call]) (max 0 (current_block - BLOCKS_PER_BATCH)) current_block
         = Entries events \<and>
       target_count \<le> int (length (List.map_filter parse_supply_event events)) \<longrightarrow>
       fetch_supply_events is_connected get_block_number get_logs target_count s =
         (Inr (take (nat target_count) (List.map_filter parse_supply_event events)),
          s\<lparr>effects := effects s @
               [Call, Query (max 0 (current_block - BLOCKS_PER_BATCH)) current_block]\<rparr>)
       \<and> int (length (take (nat target_count) (List.map_filter parse_supply_event events)))
           = target_count)"
proof -
  have a: "\<not> (int (length all_events) < target_count \<and> 0 < from_block \<and> attempt < max_attempts) \<longrightarrow>
      fetch_loop get_logs target_count all_events from_block attempt s = (all_events, s)"
    using fetch_loop_stop by blast
  obtain new where new:
    "effects (snd (fetch_loop get_logs target_count all_events from_block attempt s))
       = effects s @ new"
    "failed_queries get_logs (effects s) new = length (backoffs new)"
    "backoffs new = map (\<lambda>i. 2 ^ (attempt + 1 + i)) [0..<length (backoffs new)]"
    "attempt \<le> max_attempts \<longrightarrow> attempt + length (backoffs new) \<le> max_attempts"
    "attempt < max_attempts \<and> attempt + length (backoffs new) = max_attempts \<longrightarrow>
       new \<noteq> [] \<and> last new = Sleep (2 ^ max_attempts)"
    "\<forall>(f, t)\<in>set (windows new). 0 < t \<and> f = max 0 (t - BLOCKS_PER_BATCH)"
    using fetch_loop_failures [of get_logs target_count all_events from_block attempt s] by blast
  have b: "\<exists>new. effects (snd (fetch_loop get_logs target_count all_events from_block attempt s))
                = effects s @ new
         \<and> failed_queries get_logs (effects s) new = length (backoffs new)
         \<and> backoffs new = map (\<lambda>i. 2 ^ (attempt + 1 + i)) [0..<length (backoffs new)]
         \<and> (attempt \<le> max_attempts \<longrightarrow>
              attempt + failed_queries get_logs (effects s) new \<le> max_attempts)
         \<and> (attempt < max_attempts \<and>
              attempt + failed_queries get_logs (effects s) new = max_attempts \<longrightarrow>
              new \<noteq> [] \<and> last new = Sleep (2 ^ max_attempts))
         \<and> (\<forall>(f, t)\<in>set (windows new). 0 < t \<and> f = max 0 (t - BLOCKS_PER_BATCH))"
    using new by (intro exI [of _ new]) (simp only: simp_thms)
  have c: "case fetch_supply_events is_connected get_block_number get_logs target_count s of
         (Inl e, s') \<Rightarrow> fst (execute_with_retry is_connected get_block_number s) = Inl e
       | (Inr result, s') \<Rightarrow> int (length result) \<le> max 0 target_count"
  proof (cases "execute_with_retry is_connected get_block_number s")
    case (Pair r s1)
    show ?thesis
    proof (cases r)
      case (Inl e)
      then show ?thesis using Pair by (simp add: fetch_supply_events_def)
    next
      case (Inr current_block)
      obtain all s2 where f: "fetch_loop get_logs target_count [] current_block 0 s1 = (all, s2)"
        by (cases "fetch_loop get_logs target_count [] current_block 0 s1") auto
      have "int (length (slice_to target_count all)) \<le> max 0 target_count"
      proof (cases "0 \<le> target_count")
        case True
        then show ?thesis using length_slice_to_le [of target_count all] by simp
      next
        case False
        then have "fetch_loop get_logs target_count [] current_block 0 s1 = ([], s1)"
          by (intro fetch_loop_stop) simp
        then have "all = []" using f by simp
        then show ?thesis by (simp add: slice_to_def)
      qed
      then show ?thesis using Pair Inr f by (simp add: fetch_supply_events_def)
    qed
  qed
  have h: "\<forall>head s1. execute_with_retry is_connected get_block_number s = (Inr head, s1) \<longrightarrow>
         fetch_supply_events is_connected get_block_number get_logs target_count s =
           (Inr (slice_to target_count (fst (fetch_loop get_logs target_count [] head 0 s1))),
            snd (fetch_loop get_logs target_count [] head 0 s1))"
    by (simp add: fetch_supply_events_def split: prod.splits)
  have d: "fetch_supply_events is_connected get_block_number get_logs target_count s =
         (Inr (take (nat target_count) (List.map_filter parse_supply_event events)),
          s\<lparr>effects := effects s @
               [Call, Query (max 0 (current_block - BLOCKS_PER_BATCH)) current_block]\<rparr>)
       \<and> int (length (take (nat target_count) (List.map_filter parse_supply_event events)))
           = target_count"
    if h: "rpc_endpoints s \<noteq> []" "get_block_number (effects s) = Returns current_block"
      "0 < current_block" "0 < target_count"
      "get_logs (effects s @ [Call]) (max 0 (current_block - BLOCKS_PER_BATCH)) current_block
         = Entries events"
      "target_count \<le> int (length (List.map_filter parse_supply_event events))"
  proof -
    have e: "execute_with_retry is_connected get_block_number s = (Inr current_block, perform Call s)"
      using execute_with_retry_returns [where func = get_block_number and s = s, OF h(2) h(1)] .
    have g: "get_logs (effects (perform Call s)) (max 0 (current_block - BLOCKS_PER_BATCH)) current_block
         = Entries events"
      using h(5) by (simp add: perform_def)
    have f: "fetch_loop get_logs target_count [] current_block 0 (perform Call s) =
       (List.map_filter parse_supply_event events,
        perform (Query (max 0 (current_block - BLOCKS_PER_BATCH)) current_block) (perform Call s))"
      using fetch_loop_first_window [where get_logs = get_logs and s = "perform Call s", OF h(4) h(3) g h(6)] .
    show ?thesis
      using e f h(4) h(6) by (simp add: fetch_supply_events_def slice_to_def perform_def)
  qed
  show ?thesis
    using a b fetch_loop_backoffs c h d by blast
qed


text \<open>A well-formed log entry, for the examples: block number and raw amount.\<close>

definition sample_log :: "int \<Rightarrow> int \<Rightarrow> raw_event" where
  "sample_log bn raw =
     \<lparr>args = Some \<lparr>args_reserve = Some ''usdc'', args_user = Some ''u'',
                   args_onBehalfOf = Some ''v'', args_amount = Some raw,
                   args_referralCode = Some 0\<rparr>,
      blockNumber = Some bn, transactionHash = Some ''0xab''\<rparr>"

definition sample_event :: "int \<Rightarrow> int \<Rightarrow> rat \<Rightarrow> supply_event" where
  "sample_event bn raw usdc =
     \<lparr>block_number = bn, transaction_hash = ''0xab'', reserve = ''usdc'', user = ''u'',
      on_behalf_of = ''v'', amount_raw = raw, amount_usdc = usdc, referral_code = 0,
      timestamp = None\<rparr>"

lemma parse_sample_log:
  "parse_supply_event (sample_log bn 2000000) = Some (sample_event bn 2000000 2)"
proof -
  have "true_div 2000000 (10 ^ 6) = Inr 2"
    by code_simp
  then show ?thesis
    by (simp add: parse_supply_event_def sample_log_def sample_event_def USDC_DECIMALS_def)
qed

theorem fetch_supply_events_bounded_witness:
  "fetch_supply_events (\<lambda>h ep. Live) (\<lambda>h. Returns 25000)
     (\<lambda>h f t. if t = 25000
        then Entries [sample_log 24000 2000000, sample_log 23000 2000000, sample_log 22000 2000000]
        else Entries [])
     2 \<lparr>rpc_endpoints = [''a''], current_rpc_index = 0, w3 = Some ''a'', effects = []\<rparr>
   = (Inr [sample_event 24000 2000000 2, sample_event 23000 2000000 2],
      \<lparr>rpc_endpoints = [''a''], current_rpc_index = 0, w3 = Some ''a'',
       effects = [Call, Query 15000 25000]\<rparr>)
   \<and> fetch_loop (\<lambda>h f t. Entries []) 2 [sample_event 24000 2000000 2, sample_event 23000 2000000 2]
        15000 0 \<lparr>rpc_endpoints = [''a''], current_rpc_index = 0, w3 = Some ''a'', effects = []\<rparr>
     = ([sample_event 24000 2000000 2, sample_event 23000 2000000 2],
        \<lparr>rpc_endpoints = [''a''], current_rpc_index = 0, w3 = Some ''a'', effects = []\<rparr>)
   \<and> fetch_supply_events (\<lambda>h ep. Live) (\<lambda>h. Returns 100000)
        (\<lambda>h f t. Fails (Exception ''rate limit''))
        2 \<lparr>rpc_endpoints = [''a''], current_rpc_index = 0, w3 = Some ''a'', effects = []\<rparr>
     = (Inr [],
        \<lparr>rpc_endpoints = [''a''], current_rpc_index = 0, w3 = Some ''a'',
         effects = [Call, Query 90000 100000, Sleep 2, Query 80000 90000, Sleep 4,
                    Query 70000 80000, Sleep 8, Query 60000 70000, Sleep 16,
                    Query 50000 60000, Sleep 32]\<rparr>)
   \<and> failed_queries (\<lambda>h f t. Fails (Exception ''rate limit'')) [Call]
        [Query 90000 100000, Sleep 2, Query 80000 90000, Sleep 4,
         Query 70000 80000, Sleep 8, Query 60000 70000, Sleep 16,
         Query 50000 60000, Sleep 32] = 5"
proof -
  let ?logs = "\<lambda>(h::action list) (f::int) (t::int). if t = 25000
        then Entries [sample_log 24000 2000000, sample_log 23000 2000000, sample_log 22000 2000000]
        else Entries []"
  let ?fail = "\<lambda>(h::action list) (f::int) (t::int). Fails (Exception ''rate limit'')"
  let ?s = "\<lparr>rpc_endpoints = [''a''], current_rpc_index = 0, w3 = Some ''a'', effects = []\<rparr>"
  note first = fetch_supply_events_bounded [where all_events = "[]" and target_count = 2
      and from_block = 25000 and attempt = 0 and get_logs = ?logs and s = ?s
      and is_connected = "\<lambda>h ep. Live" and get_block_number = "\<lambda>h. Returns 25000"
      and current_block = 25000
      and events = "[sample_log 24000 2000000, sample_log 23000 2000000, sample_log 22000 2000000]",
      THEN conjunct2, THEN conjunct2, THEN conjunct2, THEN conjunct2, THEN conjunct2]
  have 1: "fetch_supply_events (\<lambda>h ep. Live) (\<lambda>h. Returns 25000) ?logs 2 ?s
   = (Inr [sample_event 24000 2000000 2, sample_event 23000 2000000 2],
      \<lparr>rpc_endpoints = [''a''], current_rpc_index = 0, w3 = Some ''a'',
       effects = [Call, Query 15000 25000]\<rparr>)"
    using first
    by (simp add: parse_sample_log List.map_filter_simps BLOCKS_PER_BATCH_def)
  note stop = fetch_supply_events_bounded [where
      all_events = "[sample_event 24000 2000000 2, sample_event 23000 2000000 2]"
      and target_count = 2 and from_block = 15000 and attempt = 0
      and get_logs = "\<lambda>h f t. Entries []" and s = ?s, THEN conjunct1]
  have 2: "fetch_loop (\<lambda>h f t. Entries []) 2
        [sample_event 24000 2000000 2, sample_event 23000 2000000 2] 15000 0 ?s
     = ([sample_event 24000 2000000 2, sample_event 23000 2000000 2], ?s)"
    using stop by simp
  have 3: "fetch_supply_events (\<lambda>h ep. Live) (\<lambda>h. Returns 100000) ?fail 2 ?s
     = (Inr [],
        \<lparr>rpc_endpoints = [''a''], current_rpc_index = 0, w3 = Some ''a'',
         effects = [Call, Query 90000 100000, Sleep 2, Query 80000 90000, Sleep 4,
                    Query 70000 80000, Sleep 8, Query 60000 70000, Sleep 16,
                    Query 50000 60000, Sleep 32]\<rparr>)"
    by (simp add: fetch_supply_events_def execute_with_retry_def retry_loop.simps MAX_RETRIES_def
        fetch_loop.simps max_attempts_def BLOCKS_PER_BATCH_def perform_def Let_def slice_to_def)
  have 4: "failed_queries ?fail [Call]
        [Query 90000 100000, Sleep 2, Query 80000 90000, Sleep 4,
         Query 70000 80000, Sleep 8, Query 60000 70000, Sleep 16,
         Query 50000 60000, Sleep 32] = 5"
    by simp
  show ?thesis using 1 2 3 4 by simp
qed

text \<open>
  A block as \<open>w3.eth.get_block\<close> returns it, as far as its integer entries go;
  \<open>block['timestamp']\<close> raises KeyError when there is no such entry.
\<close>

type_synonym block = "string \<rightharpoonup> int"

text \<open>
  \<open>get_block_timestamp\<close>: the lookup goes through \<open>execute_with_retry\<close>; any exception,
  of the lookup or of the subscript, is caught and the result is 0.
\<close>

definition get_block_timestamp ::
  "liveness \<Rightarrow> (int \<Rightarrow> block operation) \<Rightarrow> int \<Rightarrow> manager \<Rightarrow> int \<times> manager" where
  "get_block_timestamp is_connected get_block bn s =
     (case execute_with_retry is_connected (get_block bn) s of
        (Inr block, s1) \<Rightarrow> (case block ''timestamp'' of Some t \<Rightarrow> (t, s1) | None \<Rightarrow> (0, s1))
      | (Inl e, s1) \<Rightarrow> (0, s1))"

text \<open>The loop over \<open>unique_blocks\<close> that fills the dictionary \<open>block_timestamps\<close>.\<close>

fun fetch_timestamps ::
  "liveness \<Rightarrow> (int \<Rightarrow> block operation) \<Rightarrow> int list \<Rightarrow> (int \<rightharpoonup> int) \<Rightarrow> manager
     \<Rightarrow> (int \<rightharpoonup> int) \<times> manager" where
  "fetch_timestamps is_connected get_block [] block_timestamps s = (block_timestamps, s)"
| "fetch_timestamps is_connected get_block (b # unique_blocks) block_timestamps s =
     (case get_block_timestamp is_connected get_block b s of
        (t, s1) \<Rightarrow>
          fetch_timestamps is_connected get_block unique_blocks (block_timestamps(b \<mapsto> t)) s1)"

text \<open>
  \<open>enrich_events_with_timestamps\<close>. \<open>list(set(...))\<close> lists the distinct block numbers
  in the set's iteration order, which Python does not specify: \<open>set_order\<close> stands for
  it. The events are updated in place and the same list is returned.
\<close>

definition enrich_events_with_timestamps ::
  "(int list \<Rightarrow> int list) \<Rightarrow> liveness \<Rightarrow> (int \<Rightarrow> block operation) \<Rightarrow> supply_event list \<Rightarrow> manager
     \<Rightarrow> supply_event list \<times> manager" where
  "enrich_events_with_timestamps set_order is_connected get_block events s =
     (let unique_blocks = set_order (map block_number events)
      in case fetch_timestamps is_connected get_block unique_blocks Map.empty s of
           (block_timestamps, s1) \<Rightarrow>
             (map (\<lambda>event. event\<lparr>timestamp :=
                      Some (case block_timestamps (block_number event) of
                              Some t \<Rightarrow> t | None \<Rightarrow> 0)\<rparr>) events,
              s1))"

lemma fetch_timestamps_other:
  "b \<notin> set bs \<Longrightarrow> fst (fetch_timestamps is_connected get_block bs m s) b = m b"
  by (induction bs arbitrary: m s) (auto split: prod.splits)

lemma fetch_timestamps_lookup:
  "distinct bs \<Longrightarrow> b \<in> set bs \<Longrightarrow>
   fst (fetch_timestamps is_connected get_block bs m s) b =
     Some (fst (get_block_timestamp is_connected get_block b
             (snd (fetch_timestamps is_connected get_block (takeWhile (\<lambda>x. x \<noteq> b) bs) m s))))"
proof (induction bs arbitrary: m s)
  case Nil
  then show ?case by simp
next
  case (Cons a bs)
  obtain t s1 where g: "get_block_timestamp is_connected get_block a s = (t, s1)"
    by (cases "get_block_timestamp is_connected get_block a s") auto
  show ?case
  proof (cases "b = a")
    case True
    then have "b \<notin> set bs" using Cons.prems(1) by simp
    then show ?thesis
      using True g fetch_timestamps_other [of b bs is_connected get_block "m(a \<mapsto> t)" s1]
      by simp
  next
    case False
    then have "b \<in> set bs" "distinct bs" using Cons.prems by auto
    then have ih: "fst (fetch_timestamps is_connected get_block bs (m(a \<mapsto> t)) s1) b =
       Some (fst (get_block_timestamp is_connected get_block b
               (snd (fetch_timestamps is_connected get_block (takeWhile (\<lambda>x. x \<noteq> b) bs)
                       (m(a \<mapsto> t)) s1))))"
      using Cons.IH [of "m(a \<mapsto> t)" s1] by blast
    have "a \<noteq> b" using False by simp
    then show ?thesis
      using g by (simp add: ih)
  qed
qed

text \<open>
  C10. Let \<open>list(set(...))\<close> list each block number of the records once. The list
  returned has the records of the input in the same order, each unchanged but for its
  timestamp, which is now set: to the result of the one lookup made for the record's
  block (\<open>get_block_timestamp\<close> on that block, in the state the lookups of the blocks
  listed before it have left), and that lookup gave 0 when \<open>execute_with_retry\<close> raised
  or the block has no timestamp, and the block's timestamp otherwise. Nothing but these
  lookups is done.
\<close>

theorem enrich_events_frame:
  assumes "distinct (set_order (map block_number events))"
    and "set (set_order (map block_number events)) = set (map block_number events)"
  shows "length (fst (enrich_events_with_timestamps set_order is_connected get_block events s))
     = length events
   \<and> map (\<lambda>e. e\<lparr>timestamp := None\<rparr>)
        (fst (enrich_events_with_timestamps set_order is_connected get_block events s))
     = map (\<lambda>e. e\<lparr>timestamp := None\<rparr>) events
   \<and> map block_number (fst (enrich_events_with_timestamps set_order is_connected get_block events s))
     = map block_number events
   \<and> map transaction_hash (fst (enrich_events_with_timestamps set_order is_connected get_block events s))
     = map transaction_hash events
   \<and> map reserve (fst (enrich_events_with_timestamps set_order is_connected get_block events s))
     = map reserve events
   \<and> map user (fst (enrich_events_with_timestamps set_order is_connected get_block events s))
     = map user events
   \<and> map on_behalf_of (fst (enrich_events_with_timestamps set_order is_connected get_block events s))
     = map on_behalf_of events
   \<and> map amount_raw (fst (enrich_events_with_timestamps set_order is_connected get_block events s))
     = map amount_raw events
   \<and> map amount_usdc (fst (enrich_events_with_timestamps set_order is_connected get_block events s))
     = map amount_usdc events
   \<and> map referral_code (fst (enrich_events_with_timestamps set_order is_connected get_block events s))
     = map referral_code events
   \<and> map timestamp (fst (enrich_events_with_timestamps set_order is_connected get_block events s))
     = map (\<lambda>e. Some (fst (get_block_timestamp is_connected get_block (block_number e)
                        (snd (fetch_timestamps is_connected get_block
                                (takeWhile (\<lambda>b. b \<noteq> block_number e)
                                   (set_order (map block_number events)))
                                Map.empty s))))) events
   \<and> snd (enrich_events_with_timestamps set_order is_connected get_block events s)
     = snd (fetch_timestamps is_connected get_block (set_order (map block_number events))
              Map.empty s)
   \<and> (fst (execute_with_retry is_connected (get_block bn) s') = Inl e \<longrightarrow>
        fst (get_block_timestamp is_connected get_block bn s') = 0)
   \<and> (fst (execute_with_retry is_connected (get_block bn) s') = Inr b \<longrightarrow>
        fst (get_block_timestamp is_connected get_block bn s')
          = (case b ''timestamp'' of Some t \<Rightarrow> t | None \<Rightarrow> 0))
   \<and> snd (get_block_timestamp is_connected get_block bn s')
        = snd (execute_with_retry is_connected (get_block bn) s')"
proof -
  let ?bs = "set_order (map block_number events)"
  have look: "fst (fetch_timestamps is_connected get_block ?bs Map.empty s) (block_number e) =
     Some (fst (get_block_timestamp is_connected get_block (block_number e)
             (snd (fetch_timestamps is_connected get_block
                     (takeWhile (\<lambda>x. x \<noteq> block_number e) ?bs) Map.empty s))))"
    if "e \<in> set events" for e
    using that assms(2) by (intro fetch_timestamps_lookup [OF assms(1)]) auto
  have ts: "map timestamp (fst (enrich_events_with_timestamps set_order is_connected get_block events s))
     = map (\<lambda>e. Some (fst (get_block_timestamp is_connected get_block (block_number e)
                        (snd (fetch_timestamps is_connected get_block
                                (takeWhile (\<lambda>b. b \<noteq> block_number e) ?bs) Map.empty s))))) events"
    using look
    by (auto simp: enrich_events_with_timestamps_def Let_def split: prod.splits)
  have rest: "length (fst (enrich_events_with_timestamps set_order is_connected get_block events s))
     = length events
   \<and> map (\<lambda>e. e\<lparr>timestamp := None\<rparr>)
        (fst (enrich_events_with_timestamps set_order is_connected get_block events s))
     = map (\<lambda>e. e\<lparr>timestamp := None\<rparr>) events
   \<and> map block_number (fst (enrich_events_with_timestamps set_order is_connected get_block events s))
     = map block_number events
   \<and> map transaction_hash (fst (enrich_events_with_timestamps set_order is_connected get_block events s))
     = map transaction_hash events
   \<and> map reserve (fst (enrich_events_with_timestamps set_order is_connected get_block events s))
     = map reserve events
   \<and> map user (fst (enrich_events_with_timestamps set_order is_connected get_block events s))
     = map user events
   \<and> map on_behalf_of (fst (enrich_events_with_timestamps set_order is_connected get_block events s))
     = map on_behalf_of events
   \<and> map amount_raw (fst (enrich_events_with_timestamps set_order is_connected get_block events s))
     = map amount_raw events
   \<and> map amount_usdc (fst (enrich_events_with_timestamps set_order is_connected get_block events s))
     = map amount_usdc events
   \<and> map referral_code (fst (enrich_events_with_timestamps set_order is_connected get_block events s))
     = map referral_code events
   \<and> snd (enrich_events_with_timestamps set_order is_connected get_block events s)
     = snd (fetch_timestamps is_connected get_block ?bs Map.empty s)"
    by (auto simp: enrich_events_with_timestamps_def Let_def split: prod.splits)
  have gbt: "(fst (execute_with_retry is_connected (get_block bn) s') = Inl e \<longrightarrow>
        fst (get_block_timestamp is_connected get_block bn s') = 0)
   \<and> (fst (execute_with_retry is_connected (get_block bn) s') = Inr b \<longrightarrow>
        fst (get_block_timestamp is_connected get_block bn s')
          = (case b ''timestamp'' of Some t \<Rightarrow> t | None \<Rightarrow> 0))
   \<and> snd (get_block_timestamp is_connected get_block bn s')
        = snd (execute_with_retry is_connected (get_block bn) s')"
    by (auto simp: get_block_timestamp_def split: prod.splits sum.splits option.splits)
  show ?thesis
    using ts rest gbt by simp
qed


theorem enrich_events_frame_witness:
  "distinct (remdups (map block_number
       [sample_event 24000 2000000 2, sample_event 23000 2000000 2, sample_event 24000 2000000 2]))
   \<and> fst (enrich_events_with_timestamps remdups (\<lambda>h ep. Live)
          (\<lambda>bn h. if bn = 24000 then Returns [''timestamp'' \<mapsto> 1700000000]
                   else Raises (Exception ''block not found''))
          [sample_event 24000 2000000 2, sample_event 23000 2000000 2, sample_event 24000 2000000 2]
          \<lparr>rpc_endpoints = [''a''], current_rpc_index = 0, w3 = Some ''a'', effects = []\<rparr>)
   = [(sample_event 24000 2000000 2)\<lparr>timestamp := Some 1700000000\<rparr>,
      (sample_event 23000 2000000 2)\<lparr>timestamp := Some 0\<rparr>,
      (sample_event 24000 2000000 2)\<lparr>timestamp := Some 1700000000\<rparr>]
   \<and> effects (snd (enrich_events_with_timestamps remdups (\<lambda>h ep. Live)
          (\<lambda>bn h. if bn = 24000 then Returns [''timestamp'' \<mapsto> 1700000000]
                   else Raises (Exception ''block not found''))
          [sample_event 24000 2000000 2, sample_event 23000 2000000 2, sample_event 24000 2000000 2]
          \<lparr>rpc_endpoints = [''a''], current_rpc_index = 0, w3 = Some ''a'', effects = []\<rparr>))
   = [Call, Call]
   \<and> fst (get_block_timestamp (\<lambda>h ep. Live)
          (\<lambda>bn h. if bn = 24000 then Returns [''timestamp'' \<mapsto> 1700000000]
                   else Raises (Exception ''block not found''))
          23000 \<lparr>rpc_endpoints = [''a''], current_rpc_index = 0, w3 = Some ''a'', effects = []\<rparr>) = 0"
proof -
  let ?gb = "\<lambda>(bn::int) (h::action list). if bn = 24000 then Returns [''timestamp'' \<mapsto> (1700000000::int)]
                   else Raises (Exception ''block not found'')"
  let ?s = "\<lparr>rpc_endpoints = [''a''], current_rpc_index = 0, w3 = Some ''a'', effects = []\<rparr>"
  let ?evs = "[sample_event 24000 2000000 2, sample_event 23000 2000000 2, sample_event 24000 2000000 2]"
  have d: "distinct (remdups (map block_number ?evs))"
    by (rule distinct_remdups)
  have e: "set (remdups (map block_number ?evs)) = set (map block_number ?evs)"
    by (rule set_remdups)
  have x: "execute_with_retry (\<lambda>h ep. Live) (?gb 23000) ?s
           = (Inl (Exception ''block not found''), perform Call ?s)"
    unfolding execute_with_retry_def
    by (subst retry_loop.simps) (simp add: MAX_RETRIES_def)
  have 1: "enrich_events_with_timestamps remdups (\<lambda>h ep. Live) ?gb ?evs ?s
   = ([(sample_event 24000 2000000 2)\<lparr>timestamp := Some 1700000000\<rparr>,
       (sample_event 23000 2000000 2)\<lparr>timestamp := Some 0\<rparr>,
       (sample_event 24000 2000000 2)\<lparr>timestamp := Some 1700000000\<rparr>],
      ?s\<lparr>effects := [Call, Call]\<rparr>)"
    by (simp add: enrich_events_with_timestamps_def get_block_timestamp_def Let_def
        execute_with_retry_def retry_loop.simps MAX_RETRIES_def sample_event_def perform_def)
  have 2: "fst (get_block_timestamp (\<lambda>h ep. Live) ?gb 23000 ?s) = 0"
    using enrich_events_frame [where set_order = remdups and events = ?evs
        and is_connected = "\<lambda>h ep. Live" and get_block = ?gb and s = ?s and bn = 23000
        and s' = ?s and e = "Exception ''block not found''", OF d e] x
    by simp
  show ?thesis using d 1 2 by simp
qed

section \<open>Analyzer (rotation/analyzer.py)\<close>

text \<open>
  \<open>self.df = pd.DataFrame(events)\<close>: one row per record, one column per key. The frame
  of an empty list has no columns, so \<open>self.df['amount_usdc']\<close> and
  \<open>self.df.groupby('on_behalf_of')\<close> raise KeyError on it. The amounts are floats, that
  is rationals; the sums and quotients the analyzer takes of them are taken exactly here
  (pandas' floating-point summation is not modelled). A quotient of two numpy floats
  with a zero divisor is no exception but \<open>nan\<close> or an infinity.
\<close>

datatype float64 = Finite rat | NaN | PosInf | NegInf

definition np_divide :: "rat \<Rightarrow> rat \<Rightarrow> float64" where
  "np_divide a b =
     (if b \<noteq> 0 then Finite (a / b) else if a = 0 then NaN else if 0 < a then PosInf else NegInf)"

fun times_100 :: "float64 \<Rightarrow> float64" where
  "times_100 (Finite x) = Finite (x * 100)"
| "times_100 v = v"

text \<open>\<open>self.df['amount_usdc'].sum()\<close>\<close>

definition sum_amount_usdc :: "supply_event list \<Rightarrow> exn + rat" where
  "sum_amount_usdc df =
     (if df = [] then Inl (KeyError ''amount_usdc'') else Inr (sum_list (map amount_usdc df)))"

text \<open>
  \<open>self.df.groupby('on_behalf_of')\<close> with the sum and the count of \<open>amount_usdc\<close> per
  group: one row per distinct address, in sorted order of the addresses.
\<close>

definition groupby_on_behalf_of :: "supply_event list \<Rightarrow> exn + (string \<times> rat \<times> nat) list" where
  "groupby_on_behalf_of df =
     (if df = [] then Inl (KeyError ''on_behalf_of'')
      else Inr (map (\<lambda>k. (k, sum_list (map amount_usdc (filter (\<lambda>e. on_behalf_of e = k) df)),
                           length (filter (\<lambda>e. on_behalf_of e = k) df)))
                  (sort (remdups (map on_behalf_of df)))))"

text \<open>
  \<open>Series.nlargest(n)\<close>: the \<open>n\<close> largest values in descending order, the first
  occurrences among equal values; nothing for \<open>n \<le> 0\<close>.
\<close>

definition nlargest :: "int \<Rightarrow> rat list \<Rightarrow> rat list" where
  "nlargest n vs = take (nat n) (sort_key uminus vs)"

definition top_n_percentage :: "int \<Rightarrow> supply_event list \<Rightarrow> exn + float64" where
  "top_n_percentage n df =
     (case groupby_on_behalf_of df of
        Inl e \<Rightarrow> Inl e
      | Inr supplier_totals \<Rightarrow>
          (let top_n_supply = sum_list (nlargest n (map (\<lambda>(k, t, c). t) supplier_totals))
           in case sum_amount_usdc df of
                Inl e \<Rightarrow> Inl e
              | Inr total_supply \<Rightarrow> Inr (times_100 (np_divide top_n_supply total_supply))))"

text \<open>
  \<open>_analyze_whales\<close>: the groups sorted by total, largest first (which of several equal
  totals comes first is pandas' choice; a stable sort here), the first row
  (\<open>iloc[0]\<close>, IndexError on no rows) and its share of the grand total.
\<close>

record whale_data =
  address :: string
  total_usdc :: rat
  tx_count :: nat
  percentage :: float64
  all_whales :: "(string \<times> rat \<times> nat) list"

definition analyze_whales :: "supply_event list \<Rightarrow> exn + whale_data" where
  "analyze_whales df =
     (case groupby_on_behalf_of df of
        Inl e \<Rightarrow> Inl e
      | Inr groups \<Rightarrow>
          (let supplier_totals = sort_key (\<lambda>(k, t, c). - t) groups
           in case supplier_totals of
                [] \<Rightarrow> Inl IndexError
              | (k, t, c) # rest \<Rightarrow>
                  (case sum_amount_usdc df of
                     Inl e \<Rightarrow> Inl e
                   | Inr total_supply \<Rightarrow>
                       Inr \<lparr>address = k, total_usdc = t, tx_count = c,
                            percentage = times_100 (np_divide t total_supply),
                            all_whales = supplier_totals\<rparr>)))"

text \<open>\<open>_analyze_transaction_sizes\<close>: four row counts under the three thresholds.\<close>

definition small_threshold :: rat where
  "small_threshold = 1000"

definition medium_threshold :: rat where
  "medium_threshold = 10000"

definition large_threshold :: rat where
  "large_threshold = 100000"

text \<open>The four boolean masks over the \<open>amount_usdc\<close> column.\<close>

definition is_small :: "rat \<Rightarrow> bool" where
  "is_small x = (x < small_threshold)"

definition is_medium :: "rat \<Rightarrow> bool" where
  "is_medium x = (small_threshold \<le> x \<and> x < medium_threshold)"

definition is_large :: "rat \<Rightarrow> bool" where
  "is_large x = (medium_threshold \<le> x \<and> x < large_threshold)"

definition is_whale :: "rat \<Rightarrow> bool" where
  "is_whale x = (large_threshold \<le> x)"

record size_dist =
  small :: nat
  medium :: nat
  large :: nat
  whale :: nat

definition analyze_transaction_sizes :: "supply_event list \<Rightarrow> exn + size_dist" where
  "analyze_transaction_sizes df =
     (if df = [] then Inl (KeyError ''amount_usdc'')
      else Inr \<lparr>small = length (filter (\<lambda>e. is_small (amount_usdc e)) df),
                medium = length (filter (\<lambda>e. is_medium (amount_usdc e)) df),
                large = length (filter (\<lambda>e. is_large (amount_usdc e)) df),
                whale = length (filter (\<lambda>e. is_whale (amount_usdc e)) df)\<rparr>)"


subsection \<open>Grouping keeps the total\<close>








subsection \<open>Transaction sizes\<close>

lemma one_mask:
  "length (filter (\<lambda>P. P x) [is_small, is_medium, is_large, is_whale]) = 1"
  by (simp add: is_small_def is_medium_def is_large_def is_whale_def
      small_threshold_def medium_threshold_def large_threshold_def)

lemma mask_counts:
  "length (filter (\<lambda>e. is_small (amount_usdc e)) df)
   + length (filter (\<lambda>e. is_medium (amount_usdc e)) df)
   + length (filter (\<lambda>e. is_large (amount_usdc e)) df)
   + length (filter (\<lambda>e. is_whale (amount_usdc e)) df) = length df"
proof (induction df)
  case Nil
  show ?case by simp
next
  case (Cons e df)
  show ?case
    using Cons one_mask [of "amount_usdc e"] by (simp split: if_splits)
qed

text \<open>
  Claim C5, on the empty record set: the frame has no \<open>amount_usdc\<close> column and the
  first mask raises KeyError; no counts are returned.
\<close>

theorem analyze_transaction_sizes_empty:
  "analyze_transaction_sizes [] = Inl (KeyError ''amount_usdc'')"
  by (simp add: analyze_transaction_sizes_def)

text \<open>
  Claim C5, for non-empty record sets: the four counts are returned, they are the
  numbers of records under the four masks \<open>amount < 1000\<close>, \<open>1000 \<le> amount < 10000\<close>,
  \<open>10000 \<le> amount < 100000\<close>, \<open>100000 \<le> amount\<close>, every amount satisfies exactly one
  mask, so the counts add up to the number of records, and the amounts 1000, 10000
  and 100000 are medium, large and whale.
\<close>

theorem analyze_transaction_sizes_partition:
  assumes "df \<noteq> []"
  shows "(\<exists>d. analyze_transaction_sizes df = Inr d
           \<and> small d = length (filter (\<lambda>e. is_small (amount_usdc e)) df)
           \<and> medium d = length (filter (\<lambda>e. is_medium (amount_usdc e)) df)
           \<and> large d = length (filter (\<lambda>e. is_large (amount_usdc e)) df)
           \<and> whale d = length (filter (\<lambda>e. is_whale (amount_usdc e)) df)
           \<and> small d + medium d + large d + whale d = length df)
    \<and> (\<forall>x. is_small x = (x < 1000) \<and> is_medium x = (1000 \<le> x \<and> x < 10000)
           \<and> is_large x = (10000 \<le> x \<and> x < 100000) \<and> is_whale x = (100000 \<le> x)
           \<and> length (filter (\<lambda>P. P x) [is_small, is_medium, is_large, is_whale]) = 1)
    \<and> is_medium 1000 \<and> is_large 10000 \<and> is_whale 100000"
proof -
  have "\<exists>d. analyze_transaction_sizes df = Inr d
           \<and> small d = length (filter (\<lambda>e. is_small (amount_usdc e)) df)
           \<and> medium d = length (filter (\<lambda>e. is_medium (amount_usdc e)) df)
           \<and> large d = length (filter (\<lambda>e. is_large (amount_usdc e)) df)
           \<and> whale d = length (filter (\<lambda>e. is_whale (amount_usdc e)) df)
           \<and> small d + medium d + large d + whale d = length df"
    using assms mask_counts [of df] by (simp add: analyze_transaction_sizes_def)
  moreover have "\<forall>x. is_small x = (x < 1000) \<and> is_medium x = (1000 \<le> x \<and> x < 10000)
           \<and> is_large x = (10000 \<le> x \<and> x < 100000) \<and> is_whale x = (100000 \<le> x)
           \<and> length (filter (\<lambda>P. P x) [is_small, is_medium, is_large, is_whale]) = 1"
    using one_mask
    by (simp add: is_small_def is_medium_def is_large_def is_whale_def
        small_threshold_def medium_threshold_def large_threshold_def)
  moreover have "is_medium 1000 \<and> is_large 10000 \<and> is_whale 100000"
    by (simp add: is_medium_def is_large_def is_whale_def
        small_threshold_def medium_threshold_def large_threshold_def)
  ultimately show ?thesis
    by blast
qed

theorem analyze_transaction_sizes_partition_witness:
  "[sample_event 1 1 999, sample_event 1 1 1000, sample_event 2 2 10000,
    sample_event 3 3 100000, sample_event 4 4 99999] \<noteq> []
   \<and> analyze_transaction_sizes
       [sample_event 1 1 999, sample_event 1 1 1000, sample_event 2 2 10000,
        sample_event 3 3 100000, sample_event 4 4 99999]
     = Inr \<lparr>small = 1, medium = 1, large = 2, whale = 1\<rparr>
   \<and> (1::nat) + 1 + 2 + 1
     = length [sample_event 1 1 999, sample_event 1 1 1000, sample_event 2 2 10000,
               sample_event 3 3 100000, sample_event 4 4 99999]"
proof -
  let ?df = "[sample_event 1 1 999, sample_event 1 1 1000, sample_event 2 2 10000,
              sample_event 3 3 100000, sample_event 4 4 99999]"
  have n: "?df \<noteq> []"
    by simp
  have d: "analyze_transaction_sizes ?df = Inr \<lparr>small = 1, medium = 1, large = 2, whale = 1\<rparr>"
    by (simp add: analyze_transaction_sizes_def sample_event_def is_small_def is_medium_def
        is_large_def is_whale_def small_threshold_def medium_threshold_def large_threshold_def)
  show ?thesis
    using analyze_transaction_sizes_partition [OF n, THEN conjunct1] n d by simp
qed

end
